theory Spec2Isabelle
  imports Complex_Main "HOL-Library.Word"
begin

unbundle bit_operations_syntax

section \<open>Report-shape frame extraction: \<^verbatim>\<open>extract_report_frames\<close> (rd03e_scope.py)\<close>

type_synonym byte = "8 word"

definition HDR_RPT :: "byte list" where
  "HDR_RPT = [0xF4, 0xF3, 0xF2, 0xF1]"

definition FTR_RPT :: "byte list" where
  "FTR_RPT = [0xF8, 0xF7, 0xF6, 0xF5]"

text \<open>
  Python's \<^verbatim>\<open>bytes.find(sub)\<close>: the lowest index at which \<open>sub\<close> occurs, \<open>None\<close> for
  the source's \<open>-1\<close>.
\<close>

fun find_sub :: "byte list \<Rightarrow> byte list \<Rightarrow> nat option" where
  "find_sub sub [] = (if sub = [] then Some 0 else None)"
| "find_sub sub (x # xs) =
     (if take (length sub) (x # xs) = sub then Some 0
      else map_option Suc (find_sub sub xs))"

text \<open>\<^verbatim>\<open>buf.find(sub, start)\<close>: the search begins at index \<open>start\<close>.\<close>

definition bytes_find :: "byte list \<Rightarrow> byte list \<Rightarrow> nat \<Rightarrow> nat option" where
  "bytes_find buf sub start =
     (if length buf < start then None
      else map_option (\<lambda>i. i + start) (find_sub sub (drop start buf)))"

text \<open>\<open>sub\<close> occurs in \<open>xs\<close> at index \<open>j\<close>.\<close>

definition occurs_at :: "byte list \<Rightarrow> byte list \<Rightarrow> nat \<Rightarrow> bool" where
  "occurs_at sub xs j \<longleftrightarrow> j + length sub \<le> length xs \<and> take (length sub) (drop j xs) = sub"

lemma find_sub_bound: "find_sub sub xs = Some i \<Longrightarrow> i + length sub \<le> length xs"
proof (induction xs arbitrary: i)
  case Nil
  then show ?case by (simp split: if_splits)
next
  case (Cons x xs)
  show ?case
  proof (cases "take (length sub) (x # xs) = sub")
    case True
    with Cons.prems have "i = 0" by simp
    moreover have "length sub \<le> length (x # xs)"
    proof -
      have "length (take (length sub) (x # xs)) = length sub"
        using True by simp
      then show ?thesis by (simp del: take_Suc_Cons)
    qed
    ultimately show ?thesis by simp
  next
    case False
    with Cons.prems obtain k where k: "find_sub sub xs = Some k" "i = Suc k"
      by auto
    from Cons.IH [OF k(1)] k(2) show ?thesis by simp
  qed
qed

lemma bytes_find_bound:
  "bytes_find buf sub start = Some e \<Longrightarrow> e + length sub \<le> length buf \<and> start \<le> e"
  by (auto simp: bytes_find_def split: if_splits dest!: find_sub_bound)

text \<open>
  The \<^verbatim>\<open>while True\<close> loop of \<^verbatim>\<open>extract_report_frames\<close>: the frames found so far and the
  buffer, which the source mutates in place and the model returns.
\<close>

function extract_loop :: "byte list list \<Rightarrow> byte list \<Rightarrow> byte list list \<times> byte list" where
  "extract_loop frames buf =
     (case bytes_find buf HDR_RPT 0 of
        None \<Rightarrow> (frames, if 4096 < length buf then drop (length buf - 64) buf else buf)
      | Some start \<Rightarrow>
          (let buf1 = (if 0 < start then drop start buf else buf) in
           case bytes_find buf1 FTR_RPT 4 of
             None \<Rightarrow> (frames, buf1)
           | Some e \<Rightarrow>
               (let end = e + length FTR_RPT
                in extract_loop (frames @ [take end buf1]) (drop end buf1))))"
  by pat_completeness auto
termination
proof (relation "measure (\<lambda>(frames, buf). length buf)", goal_cases)
  case 1
  show ?case by simp
next
  case (2 frames buf start buf1 e en)
  from 2(3) have "e + length FTR_RPT \<le> length buf1"
    using bytes_find_bound by blast
  moreover have "length buf1 \<le> length buf" using 2(2) by simp
  moreover have "length FTR_RPT = 4" by (simp add: FTR_RPT_def)
  ultimately show ?case using 2(4) by simp
qed

definition extract_report_frames :: "byte list \<Rightarrow> byte list list \<times> byte list" where
  "extract_report_frames buf = extract_loop [] buf"

declare extract_loop.simps [simp del]

section \<open>Simple-shape frame decoders (rd03e_reader.py, rd03e_two_sensor_counter.py)\<close>

text \<open>A simple-shape frame on the wire: \<^verbatim>\<open>AA AA <id> <val> 00 55 55\<close>.\<close>

definition frame :: "byte \<Rightarrow> byte \<Rightarrow> byte list" where
  "frame fid val = [0xAA, 0xAA, fid, val, 0x00, 0x55, 0x55]"

subsection \<open>\<^verbatim>\<open>loop_frames\<close>: the byte-at-a-time scanner\<close>

text \<open>The local variables \<^verbatim>\<open>state\<close>, \<^verbatim>\<open>cur_id\<close>, \<^verbatim>\<open>cur_val\<close> of \<^verbatim>\<open>loop_frames\<close>.\<close>

record scan =
  state :: nat
  cur_id :: byte
  cur_val :: byte

definition scan_init :: scan where
  "scan_init = \<lparr>state = 0, cur_id = 0, cur_val = 0\<rparr>"

text \<open>
  One pass of the \<^verbatim>\<open>while True\<close> body for a byte \<open>x\<close> that was read: the new locals,
  and the arguments of \<^verbatim>\<open>on_frame\<close> when it is called.
\<close>

definition scan_byte :: "scan \<Rightarrow> byte \<Rightarrow> scan \<times> (byte \<times> byte) option" where
  "scan_byte s x =
     (if state s = 0 then (s\<lparr>state := (if x = 0xAA then 1 else 0)\<rparr>, None)
      else if state s = 1 then
        (s\<lparr>state := (if x = 0xAA then 2 else (if x = 0xAA then 1 else 0))\<rparr>, None)
      else if state s = 2 then (s\<lparr>cur_id := x, state := 3\<rparr>, None)
      else if state s = 3 then (s\<lparr>cur_val := x, state := 4\<rparr>, None)
      else if state s = 4 then (s\<lparr>state := (if x = 0x00 then 5 else 0)\<rparr>, None)
      else if state s = 5 then (s\<lparr>state := (if x = 0x55 then 6 else 0)\<rparr>, None)
      else if state s = 6 then
        (s\<lparr>state := 0\<rparr>, if x = 0x55 then Some (cur_id s, cur_val s) else None)
      else (s, None))"

text \<open>
  The loop over the bytes the port delivers (an empty read only repeats the loop): the
  \<^verbatim>\<open>on_frame\<close> calls made, in order, and the locals afterwards.
\<close>

fun loop_frames :: "scan \<Rightarrow> byte list \<Rightarrow> (byte \<times> byte) list \<times> scan" where
  "loop_frames s [] = ([], s)"
| "loop_frames s (x # xs) =
     (let (s1, out) = scan_byte s x;
          (outs, s2) = loop_frames s1 xs
      in ((case out of None \<Rightarrow> outs | Some f \<Rightarrow> f # outs), s2))"

text \<open>
  \<^verbatim>\<open>on_frame\<close> returns at once unless the id is 1 or 2; the frames it goes on to report
  (statistics and console lines, which are not modelled) are the decoded samples.
\<close>

definition on_frame_reports :: "byte \<times> byte \<Rightarrow> bool" where
  "on_frame_reports f \<longleftrightarrow> fst f = 1 \<or> fst f = 2"

definition decoded_samples :: "byte list \<Rightarrow> (byte \<times> byte) list" where
  "decoded_samples bytes = filter on_frame_reports (fst (loop_frames scan_init bytes))"

subsection \<open>\<^verbatim>\<open>RD03EReader.run\<close>: the buffer-based scanner\<close>

text \<open>
  The inner \<^verbatim>\<open>while True\<close> of \<^verbatim>\<open>RD03EReader.run\<close> on the buffer: the values assigned to
  \<^verbatim>\<open>self.value\<close> so far (appended to \<open>vals\<close>), and the buffer left for the next read.
\<close>

function sync_loop :: "byte \<Rightarrow> byte list \<Rightarrow> byte list \<Rightarrow> byte list \<times> byte list" where
  "sync_loop want_id vals buf =
     (case bytes_find buf [0xAA, 0xAA] 0 of
        None \<Rightarrow> (vals, if buf = [] then [] else [last buf])
      | Some i \<Rightarrow>
          if length buf - i < 7 then (vals, if 0 < i then drop i buf else buf)
          else
            (let frame = take 7 (drop i buf);
                 buf1 = drop (i + 7) buf
             in if frame ! 0 = 0xAA \<and> frame ! 1 = 0xAA \<and> frame ! 5 = 0x55 \<and> frame ! 6 = 0x55
                then (let fid = frame ! 2; val = frame ! 3
                      in if fid = want_id then sync_loop want_id (vals @ [val]) buf1
                         else sync_loop want_id vals buf1)
                else sync_loop want_id vals buf1))"
  by pat_completeness auto
termination
proof (relation "measure (\<lambda>(want_id, vals, buf). length buf)", goal_cases)
  case 1
  show ?case by simp
next
  case (2 want_id vals buf i)
  then show ?case by simp
next
  case (3 want_id vals buf i)
  then show ?case by simp
next
  case (4 want_id vals buf i)
  then show ?case by simp
qed

declare sync_loop.simps [simp del]

text \<open>
  The outer loop over the chunks read from the port: each non-empty chunk is appended to
  the buffer, then the inner loop runs.
\<close>

fun reader_run :: "byte \<Rightarrow> byte list \<Rightarrow> byte list \<Rightarrow> byte list list \<Rightarrow> byte list \<times> byte list" where
  "reader_run want_id vals buf [] = (vals, buf)"
| "reader_run want_id vals buf (data # chunks) =
     (if data = [] then reader_run want_id vals buf chunks
      else (let (vals1, buf1) = sync_loop want_id vals (buf @ data)
            in reader_run want_id vals1 buf1 chunks))"

subsection \<open>Streams of frames and garbage\<close>

text \<open>
  The bytes on the wire for a list of frames, each given as the garbage that precedes
  it, its id and its value, and a last garbage segment \<open>tail\<close>; the frames sent; and the
  values of the frames that carry \<open>want_id\<close>.
\<close>

fun stream :: "(byte list \<times> byte \<times> byte) list \<Rightarrow> byte list \<Rightarrow> byte list" where
  "stream [] tail = tail"
| "stream ((g, fid, val) # fs) tail = g @ frame fid val @ stream fs tail"

definition sent :: "(byte list \<times> byte \<times> byte) list \<Rightarrow> (byte \<times> byte) list" where
  "sent fs = map (\<lambda>(g, fid, val). (fid, val)) fs"

definition wanted :: "byte \<Rightarrow> (byte list \<times> byte \<times> byte) list \<Rightarrow> byte list" where
  "wanted want_id fs = map (\<lambda>(g, fid, val). val) (filter (\<lambda>(g, fid, val). fid = want_id) fs)"

text \<open>
  Garbage that leaves a decoder ready for the next frame. For \<^verbatim>\<open>loop_frames\<close>: scanned from
  the idle state, the segment causes no \<^verbatim>\<open>on_frame\<close> call and leaves the scanner in state 0.
  For \<^verbatim>\<open>RD03EReader.run\<close>: run on the segment followed by the two sync bytes of a frame, the
  inner loop assigns no value and keeps exactly the two sync bytes in the buffer. A
  segment is silent when it causes no \<^verbatim>\<open>on_frame\<close> call, or no assignment.
\<close>

definition scanner_idle_after :: "byte list \<Rightarrow> bool" where
  "scanner_idle_after g \<longleftrightarrow>
     fst (loop_frames scan_init g) = [] \<and> state (snd (loop_frames scan_init g)) = 0"

definition scanner_silent :: "byte list \<Rightarrow> bool" where
  "scanner_silent g \<longleftrightarrow> fst (loop_frames scan_init g) = []"

definition reader_idle_after :: "byte \<Rightarrow> byte list \<Rightarrow> bool" where
  "reader_idle_after want_id g \<longleftrightarrow>
     sync_loop want_id [] (g @ [0xAA, 0xAA]) = ([], [0xAA, 0xAA])"

definition reader_silent :: "byte \<Rightarrow> byte list \<Rightarrow> bool" where
  "reader_silent want_id g \<longleftrightarrow> fst (sync_loop want_id [] g) = []"

text \<open>
  Two scanner states that agree on the state number and on the locals a frame in progress
  will still report.
\<close>

definition same_progress :: "scan \<Rightarrow> scan \<Rightarrow> bool" where
  "same_progress s t \<longleftrightarrow>
     state s = state t \<and> (3 \<le> state s \<longrightarrow> cur_id s = cur_id t)
     \<and> (4 \<le> state s \<longrightarrow> cur_val s = cur_val t)"

subsection \<open>Example streams\<close>

text \<open>
  Two frames on a noisy line: before the first a segment with a lone \<open>AA\<close>, before the
  second a malformed seven-byte candidate, after it one more byte; and a cutting of that
  stream into reads, one of them empty.
\<close>

definition noisy_frames :: "(byte list \<times> byte \<times> byte) list" where
  "noisy_frames =
     [([0x01, 0xAA, 0x05], 0x02, 0x07),
      ([0xAA, 0xAA, 0x02, 0x05, 0xFF, 0x00, 0x00], 0x01, 0x09)]"

definition noisy_chunks :: "byte list list" where
  "noisy_chunks =
     [[0x01, 0xAA, 0x05, 0xAA], [0xAA, 0x02, 0x07, 0x00], [],
      [0x55, 0x55, 0xAA, 0xAA, 0x02, 0x05, 0xFF, 0x00, 0x00,
       0xAA, 0xAA, 0x01, 0x09, 0x00, 0x55, 0x55, 0x03]]"

text \<open>The scanner after the four bytes \<^verbatim>\<open>AA AA 02 05\<close>: it expects \<open>00\<close>.\<close>

definition awaiting_pad :: scan where
  "awaiting_pad = snd (loop_frames scan_init [0xAA, 0xAA, 0x02, 0x05])"

section \<open>Guarded direction pairing (rd03e_two_sensor_counter.py, \<^verbatim>\<open>main\<close>)\<close>

text \<open>
  Python floats (timestamps, amplitudes, thresholds) are modelled as reals: comparisons and
  arithmetic are exact.
\<close>

datatype side = A | B

record BurstEvent =
  sensor :: side
  start_t :: real
  peak_t :: real
  peak_amp :: real
  peak_val :: int
  peak_sign :: int
  end_t :: real

datatype pair_mode = Start | Peak

text \<open>The command-line arguments the pairing loop reads.\<close>

record pair_args =
  arg_pair :: real
  arg_refract :: real
  arg_pair_mode :: pair_mode
  arg_min_dt :: real
  arg_amp_ratio :: real

text \<open>
  The variables of \<^verbatim>\<open>main\<close> the pairing loop works on. \<open>crossings\<close> stands for the
  \<^verbatim>\<open>[CROSS]\<close> console line and the CSV \<^verbatim>\<open>cross\<close> row written when a crossing is accepted:
  its direction and \<^verbatim>\<open>dt_ab\<close>.
\<close>

record pair_state =
  qA :: "BurstEvent list"
  qB :: "BurstEvent list"
  inbound :: nat
  outbound :: nat
  last_cross_t :: real
  crossings :: "(string \<times> real) list"

definition pair_init :: pair_state where
  "pair_init = \<lparr>qA = [], qB = [], inbound = 0, outbound = 0, last_cross_t = 0, crossings = []\<rparr>"

text \<open>
  The timestamp used for pairing (\<^verbatim>\<open>a.start_t if args.pair_mode == "start" else a.peak_t\<close>),
  and the amplitude test of the branch that decides the direction: the earlier event
  leads, and a tie is taken as \<^verbatim>\<open>B->A\<close>.
\<close>

definition pair_time :: "pair_args \<Rightarrow> BurstEvent \<Rightarrow> real" where
  "pair_time args e = (if arg_pair_mode args = Start then start_t e else peak_t e)"

definition amp_ok :: "pair_args \<Rightarrow> BurstEvent \<Rightarrow> BurstEvent \<Rightarrow> bool" where
  "amp_ok args a b \<longleftrightarrow>
     (if pair_time args a < pair_time args b then arg_amp_ratio args * peak_amp b \<le> peak_amp a
      else arg_amp_ratio args * peak_amp a \<le> peak_amp b)"

text \<open>
  One pass of \<^verbatim>\<open>while qA and qB\<close>, with \<open>a = qA[0]\<close> and \<open>b = qB[0]\<close>; \<open>qa\<close> and \<open>qb\<close>
  are the queues behind the two heads.
\<close>

definition pair_step ::
  "pair_args \<Rightarrow> BurstEvent \<Rightarrow> BurstEvent list \<Rightarrow> BurstEvent \<Rightarrow> BurstEvent list \<Rightarrow> pair_state
    \<Rightarrow> pair_state" where
  "pair_step args a qa b qb s =
     (let tA = pair_time args a;
          tB = pair_time args b;
          dt_ab = \<bar>tA - tB\<bar>
      in if arg_pair args < dt_ab then
           (if tA < tB then s\<lparr>qA := qa\<rparr> else s\<lparr>qB := qb\<rparr>)
         else if dt_ab < arg_min_dt args then s\<lparr>qA := qa, qB := qb\<rparr>
         else
           (let direction = (if tA < tB then ''A->B'' else ''B->A'')
            in if \<not> amp_ok args a b then s\<lparr>qA := qa, qB := qb\<rparr>
               else
                 (let t_cross = max (peak_t a) (peak_t b)
                  in if t_cross - last_cross_t s < arg_refract args then
                       (if peak_t a < peak_t b then s\<lparr>qA := qa\<rparr> else s\<lparr>qB := qb\<rparr>)
                     else
                       (let s1 = s\<lparr>last_cross_t := t_cross\<rparr>;
                            s2 = (if direction = ''A->B'' then s1\<lparr>inbound := inbound s1 + 1\<rparr>
                                  else s1\<lparr>outbound := outbound s1 + 1\<rparr>)
                        in s2\<lparr>crossings := crossings s2 @ [(direction, dt_ab)],
                              qA := qa, qB := qb\<rparr>))))"

text \<open>The defaults of the command line, with the pairing mode \<^verbatim>\<open>start\<close>.\<close>

definition default_args :: pair_args where
  "default_args =
     \<lparr>arg_pair = 0.90, arg_refract = 1.00, arg_pair_mode = Start, arg_min_dt = 0.12,
      arg_amp_ratio = 1.20\<rparr>"

lemma pair_step_shrinks:
  "length (qA (pair_step args a qa b qb s)) + length (qB (pair_step args a qa b qb s))
     < Suc (length qa) + Suc (length qb)"
  if "qA s = a # qa" "qB s = b # qb"
  using that by (simp add: pair_step_def Let_def)

text \<open>The pairing loop: it runs while both queues hold an event.\<close>

function pairing :: "pair_args \<Rightarrow> pair_state \<Rightarrow> pair_state" where
  "pairing args s =
     (case qA s of
        [] \<Rightarrow> s
      | a # qa \<Rightarrow>
          (case qB s of
             [] \<Rightarrow> s
           | b # qb \<Rightarrow> pairing args (pair_step args a qa b qb s)))"
  by pat_completeness auto
termination
proof (relation "measure (\<lambda>(args, s). length (qA s) + length (qB s))", goal_cases)
  case 1
  show ?case by simp
next
  case (2 args s a qa b qb)
  then show ?case using pair_step_shrinks [of s a qa b qb args] by simp
qed

declare pairing.simps [simp del]

subsection \<open>Example inputs of the pairing loop\<close>

text \<open>
  A burst of sensor \<open>sd\<close> that starts and peaks at time \<open>t\<close> with peak amplitude \<open>amp\<close>;
  and the settings of the specification's pairing example (the other arguments at their
  defaults).
\<close>

definition burst :: "side \<Rightarrow> real \<Rightarrow> real \<Rightarrow> BurstEvent" where
  "burst sd t amp = \<lparr>sensor = sd, start_t = t, peak_t = t, peak_amp = amp, peak_val = 0, peak_sign = 1, end_t = t\<rparr>"

definition spec_args :: pair_args where
  "spec_args = default_args\<lparr>arg_pair := 0.8, arg_min_dt := 0.1, arg_amp_ratio := 1.0\<rparr>"

subsection \<open>Burst detection (\<^verbatim>\<open>BurstDetector\<close>)\<close>

text \<open>The attributes of a \<^verbatim>\<open>BurstDetector\<close>: its settings and its state.\<close>

record BurstDetector =
  det_name :: side
  det_alpha :: real
  det_trig_on :: real
  det_trig_off :: real
  det_minsep :: real
  det_refractory :: real
  det_mu :: "real option"
  det_in_burst :: bool
  det_start_t :: real
  det_peak_t :: real
  det_peak_amp :: real
  det_peak_val :: int
  det_peak_sign :: int
  det_last_emit_t :: real

text \<open>\<^verbatim>\<open>BurstDetector.__init__\<close>.\<close>

definition new_detector :: "side \<Rightarrow> real \<Rightarrow> real \<Rightarrow> real \<Rightarrow> real \<Rightarrow> real \<Rightarrow> BurstDetector" where
  "new_detector name ema_alpha trig hys min_sep refractory =
     \<lparr>det_name = name, det_alpha = ema_alpha, det_trig_on = trig, det_trig_off = hys * trig,
      det_minsep = min_sep, det_refractory = refractory,
      det_mu = None, det_in_burst = False, det_start_t = 0, det_peak_t = 0, det_peak_amp = 0,
      det_peak_val = 0, det_peak_sign = 0, det_last_emit_t = 0\<rparr>"

text \<open>
  \<^verbatim>\<open>BurstDetector.update(val, ts)\<close>: the event returned (\<open>None\<close> when there is none) and the
  detector afterwards. The source also returns \<open>delta\<close> and \<open>mu\<close>, which only the log
  lines use.
\<close>

definition det_update :: "int \<Rightarrow> real \<Rightarrow> BurstDetector \<Rightarrow> BurstEvent option \<times> BurstDetector" where
  "det_update val ts d =
     (let mu = (case det_mu d of
                  None \<Rightarrow> real_of_int val
                | Some m \<Rightarrow> (1 - det_alpha d) * m + det_alpha d * real_of_int val);
          d1 = d\<lparr>det_mu := Some mu\<rparr>;
          delta = real_of_int val - mu;
          mag = \<bar>delta\<bar>
      in if \<not> det_in_burst d1 then
           (if det_trig_on d1 \<le> mag \<and> det_refractory d1 \<le> ts - det_last_emit_t d1 then
              (None, d1\<lparr>det_in_burst := True, det_start_t := ts, det_peak_t := ts,
                        det_peak_amp := mag, det_peak_val := val,
                        det_peak_sign := (if 0 \<le> delta then 1 else - 1)\<rparr>)
            else (None, d1))
         else
           (let d2 = (if det_peak_amp d1 < mag then
                        d1\<lparr>det_peak_amp := mag, det_peak_t := ts, det_peak_val := val,
                           det_peak_sign := (if 0 \<le> delta then 1 else - 1)\<rparr>
                      else d1)
            in if mag < det_trig_off d2 \<and> det_minsep d2 \<le> ts - det_start_t d2 then
                 (Some \<lparr>sensor = det_name d2, start_t = det_start_t d2, peak_t = det_peak_t d2,
                        peak_amp = det_peak_amp d2, peak_val = det_peak_val d2,
                        peak_sign = det_peak_sign d2, end_t = ts\<rparr>,
                  d2\<lparr>det_in_burst := False, det_last_emit_t := ts, det_peak_amp := 0,
                     det_peak_t := ts\<rparr>)
               else (None, d2)))"

subsection \<open>The loop of \<^verbatim>\<open>main\<close>\<close>

text \<open>
  What the main thread reads from a reader thread: the last value of the wanted id and
  the time of its frame (\<^verbatim>\<open>time.time()\<close>, zero before the first frame).
\<close>

record RD03EReader =
  rd_value :: int
  rd_last_ts :: real

text \<open>
  The command-line arguments of the detectors: \<open>arg_trigA\<close> and \<open>arg_trigB\<close> after
  \<^verbatim>\<open>--trig\<close> has filled in a missing one, \<open>arg_minsep\<close> after the alias \<^verbatim>\<open>--debounce\<close>.
\<close>

record det_args =
  arg_ema :: real
  arg_trigA :: real
  arg_trigB :: real
  arg_hys :: real
  arg_minsep :: real

record main_state =
  rdA :: RD03EReader
  rdB :: RD03EReader
  detA :: BurstDetector
  detB :: BurstDetector
  pairer :: pair_state

text \<open>Both detectors are given \<^verbatim>\<open>args.refract\<close>, the refractory period of the pairing.\<close>

definition main_init :: "pair_args \<Rightarrow> det_args \<Rightarrow> main_state" where
  "main_init args dargs =
     \<lparr>rdA = \<lparr>rd_value = 0, rd_last_ts = 0\<rparr>, rdB = \<lparr>rd_value = 0, rd_last_ts = 0\<rparr>,
      detA = new_detector A (arg_ema dargs) (arg_trigA dargs) (arg_hys dargs) (arg_minsep dargs)
               (arg_refract args),
      detB = new_detector B (arg_ema dargs) (arg_trigB dargs) (arg_hys dargs) (arg_minsep dargs)
               (arg_refract args),
      pairer = pair_init\<rparr>"

text \<open>
  The blocks \<^verbatim>\<open>A update\<close> and \<^verbatim>\<open>B update\<close>: a reader that has seen no frame is skipped,
  and an event is appended to the queue of its side.
\<close>

definition feedA :: "main_state \<Rightarrow> main_state" where
  "feedA s =
     (if rd_last_ts (rdA s) = 0 then s
      else
        (let (ev, d) = det_update (rd_value (rdA s)) (rd_last_ts (rdA s)) (detA s)
         in s\<lparr>detA := d,
              pairer := (case ev of None \<Rightarrow> pairer s
                         | Some e \<Rightarrow> (pairer s)\<lparr>qA := qA (pairer s) @ [e]\<rparr>)\<rparr>))"

definition feedB :: "main_state \<Rightarrow> main_state" where
  "feedB s =
     (if rd_last_ts (rdB s) = 0 then s
      else
        (let (ev, d) = det_update (rd_value (rdB s)) (rd_last_ts (rdB s)) (detB s)
         in s\<lparr>detB := d,
              pairer := (case ev of None \<Rightarrow> pairer s
                         | Some e \<Rightarrow> (pairer s)\<lparr>qB := qB (pairer s) @ [e]\<rparr>)\<rparr>))"

text \<open>One pass of \<^verbatim>\<open>while True\<close>: the two updates, then the pairing loop.\<close>

definition main_tick :: "pair_args \<Rightarrow> main_state \<Rightarrow> main_state" where
  "main_tick args s =
     (let s1 = feedA s; s2 = feedB s1 in s2\<lparr>pairer := pairing args (pairer s2)\<rparr>)"

text \<open>
  The states the program reaches. The reader threads assign \<^verbatim>\<open>value\<close> and then \<^verbatim>\<open>last_ts\<close>
  at any moment, with a clock that does not run backwards; the main thread updates a
  detector or makes one pass of the pairing loop. Every interleaving of these steps is
  covered, the order of \<^verbatim>\<open>main\<close> among them.
\<close>

inductive main_reach :: "pair_args \<Rightarrow> det_args \<Rightarrow> main_state \<Rightarrow> bool"
  for args :: pair_args and dargs :: det_args where
  reach_start: "main_reach args dargs (main_init args dargs)"
| reach_valueA: "main_reach args dargs s \<Longrightarrow> main_reach args dargs (s\<lparr>rdA := (rdA s)\<lparr>rd_value := v\<rparr>\<rparr>)"
| reach_stampA: "main_reach args dargs s \<Longrightarrow> rd_last_ts (rdA s) \<le> ts
                 \<Longrightarrow> main_reach args dargs (s\<lparr>rdA := (rdA s)\<lparr>rd_last_ts := ts\<rparr>\<rparr>)"
| reach_valueB: "main_reach args dargs s \<Longrightarrow> main_reach args dargs (s\<lparr>rdB := (rdB s)\<lparr>rd_value := v\<rparr>\<rparr>)"
| reach_stampB: "main_reach args dargs s \<Longrightarrow> rd_last_ts (rdB s) \<le> ts
                 \<Longrightarrow> main_reach args dargs (s\<lparr>rdB := (rdB s)\<lparr>rd_last_ts := ts\<rparr>\<rparr>)"
| reach_feedA: "main_reach args dargs s \<Longrightarrow> main_reach args dargs (feedA s)"
| reach_feedB: "main_reach args dargs s \<Longrightarrow> main_reach args dargs (feedB s)"
| reach_pair: "main_reach args dargs s \<Longrightarrow> qA (pairer s) = a # qa \<Longrightarrow> qB (pairer s) = b # qb
               \<Longrightarrow> main_reach args dargs (s\<lparr>pairer := pair_step args a qa b qb (pairer s)\<rparr>)"

subsection \<open>What holds of the queues in every state reached\<close>

text \<open>
  A burst starts before its peak and ends after it. A queue is a chain above \<open>L\<close> when
  each burst starts at least \<open>R\<close> after the end of the one before it, the first one at
  least \<open>R\<close> after \<open>L\<close>; \<open>qend\<close> is the end of its last burst.
\<close>

definition wf_ev :: "BurstEvent \<Rightarrow> bool" where
  "wf_ev e \<longleftrightarrow> start_t e \<le> peak_t e \<and> peak_t e \<le> end_t e"

fun chain :: "real \<Rightarrow> real \<Rightarrow> BurstEvent list \<Rightarrow> bool" where
  "chain R L [] = True"
| "chain R L (e # q) = (L + R \<le> start_t e \<and> wf_ev e \<and> chain R (end_t e) q)"

fun qend :: "real \<Rightarrow> BurstEvent list \<Rightarrow> real" where
  "qend L [] = L"
| "qend L (e # q) = qend (end_t e) q"

definition det_ok :: "real \<Rightarrow> real \<Rightarrow> BurstDetector \<Rightarrow> bool" where
  "det_ok R ts d \<longleftrightarrow>
     det_refractory d = R \<and> det_last_emit_t d \<le> ts
     \<and> (det_in_burst d \<longrightarrow>
          det_last_emit_t d + R \<le> det_start_t d \<and> det_start_t d \<le> det_peak_t d
          \<and> det_peak_t d \<le> ts)"

definition queues_ok :: "real \<Rightarrow> real \<Rightarrow> real \<Rightarrow> pair_state \<Rightarrow> bool" where
  "queues_ok R EA EB p \<longleftrightarrow>
     (\<exists>LA LB. chain R LA (qA p) \<and> chain R LB (qB p)
        \<and> qend LA (qA p) = EA \<and> qend LB (qB p) = EB \<and> last_cross_t p \<le> max LA LB)"

definition main_inv :: "real \<Rightarrow> main_state \<Rightarrow> bool" where
  "main_inv R s \<longleftrightarrow>
     queues_ok R (det_last_emit_t (detA s)) (det_last_emit_t (detB s)) (pairer s)
     \<and> det_ok R (rd_last_ts (rdA s)) (detA s) \<and> det_ok R (rd_last_ts (rdB s)) (detB s)"

subsection \<open>Example run of the loop of \<^verbatim>\<open>main\<close>\<close>

text \<open>
  The defaults of the detector arguments; a frame of the wanted id arriving at a reader
  (lines 79 and 80 of \<^verbatim>\<open>RD03EReader.run\<close>); and a passage: reader A sees the values 0, 100
  and 7 at the times 1000, 1001 and 1001.6, reader B the same values at 1000.2, 1001.5
  and 1002, each followed by the update of its detector, under the settings of the
  specification's pairing example.
\<close>

definition default_det_args :: det_args where
  "default_det_args =
     \<lparr>arg_ema = 0.07, arg_trigA = 12, arg_trigB = 12, arg_hys = 0.60, arg_minsep = 0.35\<rparr>"

definition frameA :: "int \<Rightarrow> real \<Rightarrow> main_state \<Rightarrow> main_state" where
  "frameA v ts s = s\<lparr>rdA := (rdA s)\<lparr>rd_value := v, rd_last_ts := ts\<rparr>\<rparr>"

definition frameB :: "int \<Rightarrow> real \<Rightarrow> main_state \<Rightarrow> main_state" where
  "frameB v ts s = s\<lparr>rdB := (rdB s)\<lparr>rd_value := v, rd_last_ts := ts\<rparr>\<rparr>"

definition passage_A :: main_state where
  "passage_A =
     feedA (frameA 7 1001.6 (feedA (frameA 100 1001 (feedA (frameA 0 1000
       (main_init spec_args default_det_args))))))"

definition passage :: main_state where
  "passage =
     feedB (frameB 7 1002 (feedB (frameB 100 1001.5 (feedB (frameB 0 1000.2 passage_A)))))"

text \<open>The two bursts that passage leaves in the queues.\<close>

definition burst_of_A :: BurstEvent where
  "burst_of_A =
     \<lparr>sensor = A, start_t = 1001, peak_t = 1001, peak_amp = 93, peak_val = 100, peak_sign = 1,
      end_t = 1001.6\<rparr>"

definition burst_of_B :: BurstEvent where
  "burst_of_B =
     \<lparr>sensor = B, start_t = 1001.5, peak_t = 1001.5, peak_amp = 93, peak_val = 100,
      peak_sign = 1, end_t = 1002\<rparr>"

section \<open>Direction edges, classification and counters (rd03e_scope.py)\<close>

subsection \<open>Shared state\<close>

text \<open>The entries of \<^verbatim>\<open>STATE\<close> that \<^verbatim>\<open>_emit_dir_edge\<close> reads as parameters.\<close>

record dir_params =
  pair :: real
  minsep :: real
  refract :: real
  sensor_gap_cm :: real
  holdA :: real
  holdB :: real
  veh_speed_min_mps :: real
  veh_peak_me_min :: real
  veh_min_duration :: real

text \<open>The defaults of the \<^verbatim>\<open>STATE\<close> literal.\<close>

definition default_params :: dir_params where
  "default_params =
     \<lparr>pair = 0.80, minsep = 0.25, refract = 1.00, sensor_gap_cm = 7.62,
      holdA = 0.30, holdB = 0.30,
      veh_speed_min_mps = 0.8, veh_peak_me_min = 40.0, veh_min_duration = 0.10\<rparr>"

text \<open>
  The dictionary \<^verbatim>\<open>DIR\<close>. The key \<^verbatim>\<open>rise_ts\<close> is created on first use with \<open>None\<close> for
  both sides, so the model starts with that value.
\<close>

record dir_state =
  dir_pending :: "side option"
  dir_ts :: real
  dir_refract_until :: real
  dir_last :: "string option"
  dir_last_ts :: real
  dir_rise_ts :: "side \<Rightarrow> real option"

definition dir_init :: dir_state where
  "dir_init =
     \<lparr>dir_pending = None, dir_ts = 0, dir_refract_until = 0, dir_last = None,
      dir_last_ts = 0, dir_rise_ts = (\<lambda>_. None)\<rparr>"

text \<open>One side of \<^verbatim>\<open>ENG_HIST\<close>: the sampled moving energy and moving distance.\<close>

record eng_hist =
  hist_me :: "real list"
  hist_md :: "int option list"

text \<open>The value stored in \<^verbatim>\<open>STATE["last_event"]\<close> by a classified crossing.\<close>

record last_event =
  ev_dir :: string
  ev_t :: real
  ev_dt :: "real option"
  ev_speed_mps :: "real option"
  ev_peak_me_A :: "real option"
  ev_peak_me_B :: "real option"
  ev_min_dist_A :: "int option"
  ev_min_dist_B :: "int option"
  ev_duration_s :: real
  ev_class :: string

text \<open>
  What \<^verbatim>\<open>_emit_dir_edge\<close> and \<^verbatim>\<open>counts_reset\<close> read and write: \<^verbatim>\<open>DIR\<close>, each reader's
  \<^verbatim>\<open>last_emit_ts\<close>, the four counters and the retained event (\<open>None\<close> when no
  crossing is retained).
\<close>

record scope_state =
  DIR :: dir_state
  last_emit_ts :: "side \<Rightarrow> real"
  count_A2B :: int
  count_B2A :: int
  count_total :: int
  count_other :: int
  retained_event :: "last_event option"

definition scope_init :: scope_state where
  "scope_init =
     \<lparr>DIR = dir_init, last_emit_ts = (\<lambda>_. 0),
      count_A2B = 0, count_B2A = 0, count_total = 0, count_other = 0,
      retained_event = None\<rparr>"

subsection \<open>Classification\<close>

text \<open>\<^verbatim>\<open>xs[-n:]\<close>, \<^verbatim>\<open>max(xs)\<close> and \<^verbatim>\<open>min(xs)\<close> of a non-empty list, \<^verbatim>\<open>x or 0.0\<close>.\<close>

definition last_n :: "nat \<Rightarrow> 'a list \<Rightarrow> 'a list" where
  "last_n n xs = drop (length xs - n) xs"

fun list_max :: "'a::linorder list \<Rightarrow> 'a option" where
  "list_max [] = None"
| "list_max (x # xs) = Some (foldl max x xs)"

fun list_min :: "'a::linorder list \<Rightarrow> 'a option" where
  "list_min [] = None"
| "list_min (x # xs) = Some (foldl min x xs)"

definition or_zero :: "real option \<Rightarrow> real" where
  "or_zero v = (case v of None \<Rightarrow> 0 | Some x \<Rightarrow> x)"

definition lookback_s :: real where
  "lookback_s = 2.5"

definition samples :: nat where
  "samples = max 1 (nat \<lfloor>lookback_s / 0.5\<rfloor>)"

text \<open>The local function \<^verbatim>\<open>feat\<close>: peak moving energy and least distance of the look-back.\<close>

definition feat :: "eng_hist \<Rightarrow> real option \<times> int option" where
  "feat h =
     (let me = last_n samples (hist_me h);
          md = last_n samples (hist_md h);
          peak_me = list_max me;
          md_vals = List.map_filter id md;
          min_dist = list_min md_vals
      in (peak_me, min_dist))"

text \<open>
  The body of the \<^verbatim>\<open>try\<close> block up to the class: \<open>ra\<close> and \<open>rb\<close> are the two entries of
  \<^verbatim>\<open>DIR["rise_ts"]\<close>. A timestamp that is \<open>None\<close> or zero is false in \<^verbatim>\<open>if ra and rb\<close>,
  and so is a zero \<open>dt\<close> in \<^verbatim>\<open>if dt and dt > 1e-3\<close>.
\<close>

definition classify ::
  "dir_params \<Rightarrow> (side \<Rightarrow> eng_hist) \<Rightarrow> real option \<Rightarrow> real option \<Rightarrow> string \<Rightarrow> real
    \<Rightarrow> last_event" where
  "classify P hist ra rb evt now =
     (let dt = (case ra of
                  None \<Rightarrow> None
                | Some a \<Rightarrow>
                    (case rb of
                       None \<Rightarrow> None
                     | Some b \<Rightarrow> if a \<noteq> 0 \<and> b \<noteq> 0 then Some \<bar>b - a\<bar> else None));
          gap_cm = sensor_gap_cm P;
          speed_mps = (case dt of
                         None \<Rightarrow> None
                       | Some d \<Rightarrow>
                           if d \<noteq> 0 \<and> 1 / 1000 < d then Some ((gap_cm / 100) / d) else None);
          (peak_me_A, min_dist_A) = feat (hist A);
          (peak_me_B, min_dist_B) = feat (hist B);
          duration_s = max (holdA P) (holdB P);
          v_min = veh_speed_min_mps P;
          me_min = veh_peak_me_min P;
          peak_me_both = max (or_zero peak_me_A) (or_zero peak_me_B);
          duration_ok = (veh_min_duration P \<le> duration_s);
          cls = (if v_min \<le> or_zero speed_mps \<and> me_min \<le> peak_me_both \<and> duration_ok
                 then ''car'' else ''other'')
      in \<lparr>ev_dir = evt, ev_t = now, ev_dt = dt, ev_speed_mps = speed_mps,
          ev_peak_me_A = peak_me_A, ev_peak_me_B = peak_me_B,
          ev_min_dist_A = min_dist_A, ev_min_dist_B = min_dist_B,
          ev_duration_s = duration_s, ev_class = cls\<rparr>)"

subsection \<open>\<^verbatim>\<open>_emit_dir_edge\<close> and \<^verbatim>\<open>counts_reset\<close>\<close>

definition side_name :: "side \<Rightarrow> string" where
  "side_name s = (case s of A \<Rightarrow> ''A'' | B \<Rightarrow> ''B'')"

text \<open>The counter updates and the retained event that follow the classification.\<close>

definition count_event :: "last_event \<Rightarrow> scope_state \<Rightarrow> scope_state" where
  "count_event ev S =
     (let S1 = (if ev_dir ev = ''A2B'' then S\<lparr>count_A2B := count_A2B S + 1\<rparr>
                else S\<lparr>count_B2A := count_B2A S + 1\<rparr>);
          S2 = (if ev_class ev = ''car'' then S1\<lparr>count_total := count_total S1 + 1\<rparr>
                else S1\<lparr>count_other := count_other S1 + 1\<rparr>)
      in S2\<lparr>retained_event := Some ev\<rparr>)"

text \<open>
  \<^verbatim>\<open>_emit_dir_edge\<close> of the reader of side \<open>sd\<close> at time \<open>now\<close> (the source's
  \<^verbatim>\<open>time.time()\<close>), under \<^verbatim>\<open>DIR_LOCK\<close>.
\<close>

definition emit_dir_edge ::
  "dir_params \<Rightarrow> (side \<Rightarrow> eng_hist) \<Rightarrow> real \<Rightarrow> side \<Rightarrow> scope_state \<Rightarrow> scope_state" where
  "emit_dir_edge P hist now sd S =
     (if now - last_emit_ts S sd < 0.05 then S
      else
        (let S1 = S\<lparr>last_emit_ts := (last_emit_ts S)(sd := now)\<rparr>;
             D = DIR S1
         in if now < dir_refract_until D then S1
            else
              (let D1 = D\<lparr>dir_rise_ts := (dir_rise_ts D)(sd := Some now)\<rparr>
               in case dir_pending D1 of
                    None \<Rightarrow> S1\<lparr>DIR := D1\<lparr>dir_pending := Some sd, dir_ts := now\<rparr>\<rparr>
                  | Some p \<Rightarrow>
                      if p \<noteq> sd \<and> now - dir_ts D1 \<le> pair P then
                        (let S2 =
                           (if minsep P \<le> now - dir_last_ts D1 then
                              (let evt = side_name p @ ''2'' @ side_name sd;
                                   D2 = D1\<lparr>dir_last := Some evt, dir_last_ts := now,
                                           dir_refract_until := now + refract P\<rparr>;
                                   ev = classify P hist (dir_rise_ts D2 A) (dir_rise_ts D2 B)
                                          evt now
                               in count_event ev (S1\<lparr>DIR := D2\<rparr>))
                            else S1\<lparr>DIR := D1\<rparr>)
                         in S2\<lparr>DIR := (DIR S2)\<lparr>dir_pending := None, dir_ts := 0\<rparr>\<rparr>)
                      else S1\<lparr>DIR := D1\<lparr>dir_pending := Some sd, dir_ts := now\<rparr>\<rparr>)))"


text \<open>The handler of \<^verbatim>\<open>POST /counts/reset\<close>.\<close>

definition counts_reset :: "scope_state \<Rightarrow> scope_state" where
  "counts_reset S =
     S\<lparr>count_A2B := 0, count_B2A := 0, count_total := 0, count_other := 0,
       retained_event := None\<rparr>"

text \<open>
  The states the counters reach from the initial one, each edge notification and each
  reset taken as one step.
\<close>

inductive reachable :: "scope_state \<Rightarrow> bool" where
  reach_init: "reachable scope_init"
| reach_edge: "reachable S \<Longrightarrow> reachable (emit_dir_edge P hist now sd S)"
| reach_reset: "reachable S \<Longrightarrow> reachable (counts_reset S)"

subsection \<open>\<^verbatim>\<open>_update_trigger\<close>\<close>

text \<open>The fields of \<^verbatim>\<open>ReaderState\<close> the trigger reads and writes.\<close>

record ReaderState =
  trig_on :: bool
  last_valid_ts :: real
  me_mean :: real
  me_m2 :: real
  me_n :: nat
  last_me :: real
  dist_ring :: "int list"

text \<open>
  What \<^verbatim>\<open>_update_trigger\<close> reads from \<^verbatim>\<open>STATE\<close>. \<open>trig_mode\<close> and \<open>trig_source\<close> are
  the strings after \<^verbatim>\<open>(... or default).lower()\<close>; \<open>mov_trig\<close>, \<open>mov_hys\<close>, \<open>mov_hold\<close>
  are the entries under the reader's own threshold keys, and \<open>trig_still\<close>, \<open>hys_still\<close>,
  \<open>hold_still\<close> the optional still-energy entries of the reader's side. \<open>se_s\<close> and
  \<open>md_s\<close> are the smoothed still energy and moving distance of the reader's channel.
\<close>

record trig_params =
  trig_mode :: string
  trig_source :: string
  min_energy :: real
  mov_trig :: real
  mov_hys :: real
  mov_hold :: real
  trig_still :: "real option"
  hys_still :: "real option"
  hold_still :: "real option"
  presence_se_min :: real
  sigma_floor :: real
  dz_min :: real
  k_sigma :: real
  wave_cm :: real
  se_s :: real
  md_s :: "int option"

text \<open>\<^verbatim>\<open>deque(maxlen=48).append\<close>: a full ring drops its oldest entry.\<close>

definition ring_append :: "int \<Rightarrow> int list \<Rightarrow> int list" where
  "ring_append x xs = (if 48 \<le> length xs then tl xs @ [x] else xs @ [x])"

definition update_me_stats :: "real \<Rightarrow> ReaderState \<Rightarrow> ReaderState" where
  "update_me_stats me rs =
     (let n = me_n rs + 1;
          d = me - me_mean rs;
          mean = me_mean rs + d / real n
      in rs\<lparr>me_n := n, me_mean := mean, me_m2 := me_m2 rs + d * (me - mean)\<rparr>)"

definition st_trig :: "trig_params \<Rightarrow> real" where
  "st_trig P = (case trig_still P of Some v \<Rightarrow> v | None \<Rightarrow> mov_trig P)"

definition st_hys :: "trig_params \<Rightarrow> real" where
  "st_hys P = (case hys_still P of Some v \<Rightarrow> v | None \<Rightarrow> mov_hys P)"

definition st_hold :: "trig_params \<Rightarrow> real" where
  "st_hold P = (case hold_still P of Some v \<Rightarrow> v | None \<Rightarrow> mov_hold P)"

definition presence :: "trig_params \<Rightarrow> bool" where
  "presence P \<longleftrightarrow> presence_se_min P \<le> se_s P"

definition sd_eff :: "trig_params \<Rightarrow> ReaderState \<Rightarrow> real" where
  "sd_eff P rs =
     (let sd = (if 2 < me_n rs then
                  (let var = me_m2 rs / (real (me_n rs) - 1)
                   in if 1 / 10 ^ 9 < var then sqrt var else 0)
                else 0)
      in max sd (sigma_floor P))"

definition step_ok :: "trig_params \<Rightarrow> ReaderState \<Rightarrow> real \<Rightarrow> bool" where
  "step_ok P rs me \<longleftrightarrow> dz_min P \<le> me - last_me rs"

definition z_ok :: "trig_params \<Rightarrow> ReaderState \<Rightarrow> real \<Rightarrow> bool" where
  "z_ok P rs me \<longleftrightarrow> k_sigma P * sd_eff P rs \<le> me - me_mean rs \<and> step_ok P rs me"

definition wave_ok :: "trig_params \<Rightarrow> ReaderState \<Rightarrow> bool" where
  "wave_ok P rs \<longleftrightarrow>
     (let r = dist_ring rs
      in if 3 \<le> length r
         then wave_cm P \<le> real_of_int \<bar>r ! (length r - 1) - r ! (length r - 3)\<bar>
         else False)"

text \<open>
  The two local functions. They read \<^verbatim>\<open>last_valid_ts\<close> when they are called, after the
  current sample has updated it.
\<close>

definition moving_logic :: "trig_params \<Rightarrow> ReaderState \<Rightarrow> real \<Rightarrow> real \<Rightarrow> bool \<Rightarrow> bool" where
  "moving_logic P rs now me prev_on =
     (if trig_mode P = ''level'' then
        (let on = (mov_trig P \<le> me);
             off = (me < max 0 (mov_trig P - mov_hys P) \<and> mov_hold P < now - last_valid_ts rs)
         in (prev_on \<and> \<not> off) \<or> (\<not> prev_on \<and> on))
      else
        (let want_on =
               (if presence P then (z_ok P rs me \<or> wave_ok P rs) \<and> min_energy P \<le> me
                else mov_trig P \<le> me \<or> (z_ok P rs me \<and> min_energy P \<le> me));
             want_off =
               (if presence P then
                  (\<not> z_ok P rs me \<and> \<not> wave_ok P rs) \<and> mov_hold P < now - last_valid_ts rs
                else me < max 0 (mov_trig P - mov_hys P) \<and> mov_hold P < now - last_valid_ts rs)
         in (prev_on \<and> \<not> want_off) \<or> (\<not> prev_on \<and> want_on)))"

definition still_logic :: "trig_params \<Rightarrow> ReaderState \<Rightarrow> real \<Rightarrow> bool \<Rightarrow> bool" where
  "still_logic P rs now prev_on =
     (let on = (st_trig P \<le> se_s P);
          off = (se_s P < max 0 (st_trig P - st_hys P) \<and> st_hold P < now - last_valid_ts rs)
      in (prev_on \<and> \<not> off) \<or> (\<not> prev_on \<and> on))"

definition active_sample :: "trig_params \<Rightarrow> ReaderState \<Rightarrow> real \<Rightarrow> bool" where
  "active_sample P rs me =
     (let src = trig_source P;
          a1 = (if src \<in> {''moving'', ''either'', ''both''} then
                  (if trig_mode P = ''level'' then min_energy P \<le> me
                   else if presence P then (z_ok P rs me \<or> wave_ok P rs) \<and> min_energy P \<le> me
                   else mov_trig P \<le> me \<or> (z_ok P rs me \<and> min_energy P \<le> me))
                else False)
      in if \<not> a1 \<and> src \<in> {''still'', ''either'', ''both''}
         then max (min_energy P) (st_trig P * 0.2) \<le> se_s P
         else a1)"

text \<open>
  The first steps of \<^verbatim>\<open>_update_trigger(me_s)\<close>: the distance ring takes the smoothed
  distance, and the baseline statistics learn from a quiet sample.
\<close>

definition learn_state :: "trig_params \<Rightarrow> real \<Rightarrow> ReaderState \<Rightarrow> ReaderState" where
  "learn_state P me rs =
     (let rs1 = (case md_s P of
                   None \<Rightarrow> rs
                 | Some d \<Rightarrow> rs\<lparr>dist_ring := ring_append d (dist_ring rs)\<rparr>)
      in if me < max (min_energy P) 10 then update_me_stats me rs1 else rs1)"

text \<open>\<^verbatim>\<open>if active_sample: self._rs.last_valid_ts = now\<close>.\<close>

definition mark_valid :: "trig_params \<Rightarrow> real \<Rightarrow> real \<Rightarrow> ReaderState \<Rightarrow> ReaderState" where
  "mark_valid P now me rs = (if active_sample P rs me then rs\<lparr>last_valid_ts := now\<rparr> else rs)"

text \<open>
  \<^verbatim>\<open>_update_trigger(me_s)\<close> at time \<open>now\<close>; \<open>borrowed\<close> says that the port's borrow lock
  is held. The result is the reader state, the value written to the trigger flag of
  \<^verbatim>\<open>STATE\<close> (\<open>None\<close> when nothing is written), and whether \<^verbatim>\<open>_emit_dir_edge\<close> is called.
\<close>

definition update_trigger ::
  "trig_params \<Rightarrow> bool \<Rightarrow> real \<Rightarrow> real \<Rightarrow> ReaderState \<Rightarrow> ReaderState \<times> bool option \<times> bool" where
  "update_trigger P borrowed now me rs =
     (let rs2 = learn_state P me rs;
          prev = trig_on rs2
      in if borrowed then (rs2, None, False)
         else
           (let rs3 = mark_valid P now me rs2;
                m_on = moving_logic P rs3 now me prev;
                s_on = still_logic P rs3 now prev;
                src = trig_source P;
                new_on = (if src = ''moving'' then m_on
                          else if src = ''still'' then s_on
                          else if src = ''either'' then (m_on \<or> s_on)
                          else (m_on \<and> s_on));
                edge = (\<not> prev \<and> new_on \<and> m_on)
            in (rs3\<lparr>trig_on := new_on, last_me := me\<rparr>, Some new_on, edge)))"

subsection \<open>Example inputs of the trigger\<close>

text \<open>
  A fresh reader state, and level-mode parameters with the source \<^verbatim>\<open>either\<close>, the default
  thresholds and a smoothed still energy of 50.
\<close>

definition reader_init :: ReaderState where
  "reader_init =
     \<lparr>trig_on = False, last_valid_ts = 0, me_mean = 0, me_m2 = 0, me_n = 0, last_me = 0,
      dist_ring = []\<rparr>"

definition either_level :: trig_params where
  "either_level =
     \<lparr>trig_mode = ''level'', trig_source = ''either'', min_energy = 5,
      mov_trig = 35, mov_hys = 5, mov_hold = 0.30,
      trig_still = None, hys_still = None, hold_still = None,
      presence_se_min = 25, sigma_floor = 6, dz_min = 5, k_sigma = 2, wave_cm = 15,
      se_s = 50, md_s = None\<rparr>"

text \<open>
  Level-mode parameters of reader A with the source \<^verbatim>\<open>moving\<close> and a hold time of 0.05 s,
  and the reader state after a sample of moving energy 50 at time 100 has switched the
  trigger on.
\<close>

definition moving_level :: trig_params where
  "moving_level = either_level\<lparr>trig_source := ''moving'', mov_hold := 0.05\<rparr>"

definition risen_at_100 :: ReaderState where
  "risen_at_100 = fst (update_trigger moving_level False 100 50 reader_init)"

subsection \<open>Baseline update of a decoded report (\<^verbatim>\<open>SerialReader.run\<close>)\<close>

record Ld2410Report =
  move_energy :: int
  move_dist_cm :: "int option"
  still_energy :: int
  still_dist_cm :: "int option"

text \<open>The latest raw sample, \<^verbatim>\<open>STATE["a_ld"]\<close> or \<^verbatim>\<open>STATE["b_ld"]\<close>.\<close>

record ld_raw =
  raw_move_energy :: int
  raw_move_dist :: "int option"
  raw_still_energy :: int
  raw_still_dist :: "int option"

text \<open>The smoothed values, \<^verbatim>\<open>STATE["a_ld_s"]\<close> or \<^verbatim>\<open>STATE["b_ld_s"]\<close>.\<close>

record ld_smooth =
  s_move_energy :: real
  s_move_dist :: "int option"
  s_still_energy :: real
  s_still_dist :: "int option"

text \<open>Python's \<^verbatim>\<open>int(x)\<close> of a float: truncation towards zero.\<close>

definition py_int :: "real \<Rightarrow> int" where
  "py_int x = (if 0 \<le> x then \<lfloor>x\<rfloor> else \<lceil>x\<rceil>)"

text \<open>The block under \<^verbatim>\<open>ENG_LOCK\<close>: \<open>alpha\<close> is \<^verbatim>\<open>ld_alpha\<close>, \<open>min_e\<close> is \<^verbatim>\<open>int(min_energy)\<close>.\<close>

definition smooth_update :: "real \<Rightarrow> int \<Rightarrow> Ld2410Report \<Rightarrow> ld_smooth \<Rightarrow> ld_smooth" where
  "smooth_update alpha min_e rep cur =
     (let cur1 =
            (case move_dist_cm rep of
               None \<Rightarrow> cur
             | Some d \<Rightarrow>
                 if min_e \<le> move_energy rep then
                   cur\<lparr>s_move_energy :=
                         (1 - alpha) * s_move_energy cur + alpha * real_of_int (move_energy rep),
                       s_move_dist :=
                         Some (py_int ((1 - alpha) *
                                 real_of_int (case s_move_dist cur of None \<Rightarrow> d | Some md \<Rightarrow> md)
                               + alpha * real_of_int d))\<rparr>
                 else cur)
      in case still_dist_cm rep of
           None \<Rightarrow> cur1
         | Some d \<Rightarrow>
             if min_e \<le> still_energy rep then
               cur1\<lparr>s_still_energy :=
                      (1 - alpha) * s_still_energy cur1 + alpha * real_of_int (still_energy rep),
                    s_still_dist :=
                      Some (py_int ((1 - alpha) *
                              real_of_int (case s_still_dist cur1 of None \<Rightarrow> d | Some sd \<Rightarrow> sd)
                            + alpha * real_of_int d))\<rparr>
             else cur1)"

text \<open>
  The branch \<^verbatim>\<open>if parsed_any and last_rep\<close> up to the trigger call: the raw sample
  written to \<^verbatim>\<open>STATE\<close>, the smoothed values, \<^verbatim>\<open>instant\<close>, which feeds the activity
  strength, and the \<^verbatim>\<open>me_s\<close> handed to \<^verbatim>\<open>_update_trigger\<close>.
\<close>

record report_effect =
  eff_raw :: ld_raw
  eff_smooth :: ld_smooth
  eff_instant :: real
  eff_me_s :: real

definition on_report :: "real \<Rightarrow> int \<Rightarrow> Ld2410Report \<Rightarrow> ld_smooth \<Rightarrow> report_effect" where
  "on_report alpha min_e rep cur =
     (let raw = \<lparr>raw_move_energy = move_energy rep, raw_move_dist = move_dist_cm rep,
                 raw_still_energy = still_energy rep, raw_still_dist = still_dist_cm rep\<rparr>;
          instant = real_of_int (move_energy rep) + 0.5 * real_of_int (still_energy rep);
          cur' = smooth_update alpha min_e rep cur
      in \<lparr>eff_raw = raw, eff_smooth = cur', eff_instant = instant,
          eff_me_s = s_move_energy cur'\<rparr>)"

subsection \<open>Decoding a report frame (\<^verbatim>\<open>decode_report_frame\<close>)\<close>






subsection \<open>One read of \<^verbatim>\<open>SerialReader.run\<close>\<close>



subsection \<open>Example inputs of the baseline update\<close>

text \<open>A report whose moving energy of 3 lies below the floor of 5, and smoothed values.\<close>

definition weak_report :: Ld2410Report where
  "weak_report =
     \<lparr>move_energy = 3, move_dist_cm = Some 120, still_energy = 40, still_dist_cm = Some 200\<rparr>"

definition smooth0 :: ld_smooth where
  "smooth0 =
     \<lparr>s_move_energy = 12, s_move_dist = Some 150, s_still_energy = 30, s_still_dist = Some 210\<rparr>"



subsection \<open>Parameter patches: \<^verbatim>\<open>POST /state\<close> and \<^verbatim>\<open>POST /ld2410/<side>/cfg\<close>\<close>

text \<open>A parsed JSON value.\<close>

datatype json =
  JNull
  | JBool bool
  | JInt int
  | JFloat real
  | JStr string
  | JList "json list"
  | JObj "(string \<times> json) list"

text \<open>The keys of the \<^verbatim>\<open>STATE\<close> literal, and the keys \<^verbatim>\<open>PUB_KEYS\<close> leaves out.\<close>

definition STATE_KEYS :: "string list" where
  "STATE_KEYS =
     [''macros'', ''ld2410_cfg'', ''a'', ''b'', ''da'', ''db'', ''ta'', ''tb'', ''a_off'',
      ''b_off'', ''pos'', ''mph'', ''a_ld'', ''b_ld'', ''ld_alpha'', ''min_energy'', ''a_ld_s'',
      ''b_ld_s'', ''paused'', ''emaA'', ''emaB'', ''emaDA'', ''emaDB'', ''deadA'', ''deadB'',
      ''spike_factor'', ''gainA'', ''gainB'', ''sensor_timeoutA'', ''sensor_timeoutB'',
      ''delta_scale'', ''pair'', ''minsep'', ''refract'', ''trigA'', ''trigB'', ''hysA'',
      ''hysB'', ''holdA'', ''holdB'', ''trig_source'', ''trigA_still'', ''trigB_still'',
      ''hysA_still'', ''hysB_still'', ''holdA_still'', ''holdB_still'', ''trig_mode'',
      ''k_sigma'', ''sigma_floor'', ''dz_min'', ''presence_se_min'', ''wave_cm'',
      ''wave_window'', ''uart_side'', ''uart_read_wait_ms'', ''uart_total_timeout_ms'',
      ''uart_template'', ''uart_params'', ''sensor_gap_cm'', ''veh_speed_min_mps'',
      ''veh_peak_me_min'', ''veh_min_duration'', ''count_A2B'', ''count_B2A'',
      ''count_total'', ''count_other'', ''last_event'', ''letter_count'', ''last_letter_ts'',
      ''beam_broken'', ''raw_buf_len'']"

definition NOT_PUB :: "string list" where
  "NOT_PUB =
     [''a'', ''b'', ''da'', ''db'', ''ta'', ''tb'', ''a_off'', ''b_off'', ''mph'', ''pos'',
      ''a_ld'', ''b_ld'', ''a_ld_s'', ''b_ld_s'']"

definition PUB_KEYS :: "string list" where
  "PUB_KEYS = filter (\<lambda>k. k \<notin> set NOT_PUB) STATE_KEYS"

text \<open>
  The \<^verbatim>\<open>POST\<close> branch of \<^verbatim>\<open>state\<close>: \<open>body\<close> is the list of items of the request's JSON
  object, \<open>S\<close> the dictionary \<^verbatim>\<open>STATE\<close>.
\<close>

definition state_post :: "(string \<times> json) list \<Rightarrow> (string \<rightharpoonup> json) \<Rightarrow> (string \<rightharpoonup> json)" where
  "state_post body S = foldl (\<lambda>S' (k, v). if k \<in> set PUB_KEYS then S'(k \<mapsto> v) else S') S body"

text \<open>
  The local function \<^verbatim>\<open>upd(k, cast)\<close> of \<^verbatim>\<open>ld2410_cfg\<close>. \<open>cast\<close> is Python's \<^verbatim>\<open>float\<close> or
  \<^verbatim>\<open>int\<close> applied to a JSON value, \<open>None\<close> where the built-in raises.
\<close>

definition upd ::
  "string \<Rightarrow> (json \<Rightarrow> json option) \<Rightarrow> (string \<rightharpoonup> json) \<Rightarrow> (string \<rightharpoonup> json) \<Rightarrow> (string \<rightharpoonup> json)" where
  "upd k cast body cfg =
     (case body k of
        None \<Rightarrow> cfg
      | Some v \<Rightarrow> (case cast v of None \<Rightarrow> cfg | Some w \<Rightarrow> cfg(k \<mapsto> w)))"

text \<open>\<^verbatim>\<open>[int(x) for x in xs]\<close>: the comprehension raises when one element does.\<close>

fun cast_all :: "(json \<Rightarrow> json option) \<Rightarrow> json list \<Rightarrow> json list option" where
  "cast_all cast [] = Some []"
| "cast_all cast (x # xs) =
     (case cast x of
        None \<Rightarrow> None
      | Some w \<Rightarrow> (case cast_all cast xs of None \<Rightarrow> None | Some ws \<Rightarrow> Some (w # ws)))"

datatype response = Ok200 | Error500

text \<open>
  A threshold list of the patch: stored when the value is a list, outside any
  \<^verbatim>\<open>try\<close>, so a failing element ends the request with an error.
\<close>

definition upd_list ::
  "string \<Rightarrow> (json \<Rightarrow> json option) \<Rightarrow> (string \<rightharpoonup> json) \<Rightarrow> (string \<rightharpoonup> json)
    \<Rightarrow> (string \<rightharpoonup> json) option" where
  "upd_list k int_cast body cfg =
     (case body k of
        Some (JList xs) \<Rightarrow>
          (case cast_all int_cast xs of
             None \<Rightarrow> None
           | Some ws \<Rightarrow> Some (cfg(k \<mapsto> JList (take 9 ws))))
      | _ \<Rightarrow> Some cfg)"

text \<open>
  The \<^verbatim>\<open>POST\<close> branch of \<^verbatim>\<open>ld2410_cfg\<close> for a valid side: \<open>cfg\<close> is that side's entry
  of \<^verbatim>\<open>STATE["ld2410_cfg"]\<close>, updated in place, so the scalar updates made before an
  exception stay.
\<close>

definition ld2410_cfg_post ::
  "(json \<Rightarrow> json option) \<Rightarrow> (json \<Rightarrow> json option) \<Rightarrow> (string \<rightharpoonup> json) \<Rightarrow> (string \<rightharpoonup> json)
    \<Rightarrow> (string \<rightharpoonup> json) \<times> response" where
  "ld2410_cfg_post float_cast int_cast body cfg =
     (let c1 = upd ''rg_resolution_m'' float_cast body cfg;
          c2 = upd ''report_delay_ms'' int_cast body c1;
          c3 = upd ''stat_time_s'' int_cast body c2;
          c4 = upd ''moving_max_rg'' int_cast body c3;
          c5 = upd ''still_max_rg'' int_cast body c4
      in case upd_list ''moving_thresholds'' int_cast body c5 of
           None \<Rightarrow> (c5, Error500)
         | Some c6 \<Rightarrow>
             (case upd_list ''still_thresholds'' int_cast body c6 of
                None \<Rightarrow> (c6, Error500)
              | Some c7 \<Rightarrow> (c7, Ok200)))"

text \<open>The five scalar fields of the patch and the conversion each one goes through.\<close>

definition SCALAR_KEYS :: "string list" where
  "SCALAR_KEYS =
     [''rg_resolution_m'', ''report_delay_ms'', ''stat_time_s'', ''moving_max_rg'',
      ''still_max_rg'']"

definition scalar_cast ::
  "(json \<Rightarrow> json option) \<Rightarrow> (json \<Rightarrow> json option) \<Rightarrow> string \<Rightarrow> json \<Rightarrow> json option" where
  "scalar_cast float_cast int_cast k = (if k = ''rg_resolution_m'' then float_cast else int_cast)"

text \<open>The configuration after the five calls of \<^verbatim>\<open>upd\<close>.\<close>

definition scalars_done ::
  "(json \<Rightarrow> json option) \<Rightarrow> (json \<Rightarrow> json option) \<Rightarrow> (string \<rightharpoonup> json) \<Rightarrow> (string \<rightharpoonup> json)
    \<Rightarrow> (string \<rightharpoonup> json)" where
  "scalars_done fc ic body cfg =
     upd ''still_max_rg'' ic body
       (upd ''moving_max_rg'' ic body
         (upd ''stat_time_s'' ic body
           (upd ''report_delay_ms'' ic body
             (upd ''rg_resolution_m'' fc body cfg))))"

subsection \<open>Python's \<^verbatim>\<open>int\<close> and \<^verbatim>\<open>float\<close> on a JSON value\<close>

text \<open>
  The characters (code points below 256) that \<^verbatim>\<open>int\<close> and \<^verbatim>\<open>float\<close> strip from the ends
  of a string, and the value of a decimal digit.
\<close>

definition py_space :: "char \<Rightarrow> bool" where
  "py_space c \<longleftrightarrow> (of_char c :: nat) \<in> {9, 10, 11, 12, 13, 32, 133, 160}"

definition py_strip :: "string \<Rightarrow> string" where
  "py_strip s = rev (dropWhile py_space (rev (dropWhile py_space s)))"

definition digit_val :: "char \<Rightarrow> nat option" where
  "digit_val c = (if 48 \<le> (of_char c :: nat) \<and> (of_char c :: nat) \<le> 57
                  then Some (of_char c - 48) else None)"

text \<open>
  A digit part: decimal digits, with single underscores allowed between two digits. The
  result is the list of its digits, \<open>None\<close> when the string is not a digit part.
\<close>

fun digitpart :: "string \<Rightarrow> nat list option" where
  "digitpart [] = None"
| "digitpart [c] = map_option (\<lambda>d. [d]) (digit_val c)"
| "digitpart (c # u # cs) =
     (case digit_val c of
        None \<Rightarrow> None
      | Some d \<Rightarrow>
          if u = CHR ''_'' then map_option (Cons d) (digitpart cs)
          else map_option (Cons d) (digitpart (u # cs)))"

definition digits_value :: "nat list \<Rightarrow> nat" where
  "digits_value ds = foldl (\<lambda>n d. 10 * n + d) 0 ds"

definition split_sign :: "string \<Rightarrow> bool \<times> string" where
  "split_sign s =
     (case s of
        [] \<Rightarrow> (False, [])
      | c # cs \<Rightarrow> if c = CHR ''-'' then (True, cs) else if c = CHR ''+'' then (False, cs)
                  else (False, s))"

text \<open>\<^verbatim>\<open>int(s)\<close> of a string: an optional sign and a digit part; \<open>None\<close> when it raises.\<close>

definition signed_digits :: "string \<Rightarrow> int option" where
  "signed_digits s =
     (let (neg, body) = split_sign s
      in case digitpart body of
           None \<Rightarrow> None
         | Some ds \<Rightarrow> Some (if neg then - int (digits_value ds) else int (digits_value ds)))"

definition int_of_str :: "string \<Rightarrow> int option" where
  "int_of_str s = signed_digits (py_strip s)"

text \<open>
  \<^verbatim>\<open>float(s)\<close> of a string: an optional sign, a digit part with an optional point and
  fraction (or a point and a fraction), and an optional exponent. The value is exact, as
  floats are reals here; the strings \<^verbatim>\<open>inf\<close>, \<^verbatim>\<open>infinity\<close> and \<^verbatim>\<open>nan\<close>, which Python turns
  into values that no real stands for, are not converted.
\<close>

definition mantissa_of :: "string \<Rightarrow> real option" where
  "mantissa_of s =
     (let ip = takeWhile (\<lambda>c. c \<noteq> CHR ''.'') s;
          rest = dropWhile (\<lambda>c. c \<noteq> CHR ''.'') s
      in if rest = [] then map_option (\<lambda>ds. real (digits_value ds)) (digitpart ip)
         else
           (let fp = tl rest
            in if ip = [] \<and> fp = [] then None
               else
                 (case (if ip = [] then Some [] else digitpart ip) of
                    None \<Rightarrow> None
                  | Some ids \<Rightarrow>
                      (case (if fp = [] then Some [] else digitpart fp) of
                         None \<Rightarrow> None
                       | Some fds \<Rightarrow>
                           Some (real (digits_value ids)
                                 + real (digits_value fds) / 10 ^ length fds)))))"

definition is_e :: "char \<Rightarrow> bool" where
  "is_e c \<longleftrightarrow> c = CHR ''e'' \<or> c = CHR ''E''"

definition float_of_str :: "string \<Rightarrow> real option" where
  "float_of_str s =
     (let (neg, body) = split_sign (py_strip s);
          mp = takeWhile (\<lambda>c. \<not> is_e c) body;
          rest = dropWhile (\<lambda>c. \<not> is_e c) body
      in case mantissa_of mp of
           None \<Rightarrow> None
         | Some m \<Rightarrow>
             (case (if rest = [] then Some 0 else signed_digits (tl rest)) of
                None \<Rightarrow> None
              | Some e \<Rightarrow>
                  (let v = (if 0 \<le> e then m * 10 ^ nat e else m / 10 ^ nat (- e))
                   in Some (if neg then - v else v))))"

text \<open>
  \<^verbatim>\<open>float(v)\<close> and \<^verbatim>\<open>int(v)\<close> of a decoded JSON value, \<open>None\<close> when they raise: a number
  converts (\<^verbatim>\<open>int\<close> truncates), a boolean is 1 or 0, a string is parsed, and \<^verbatim>\<open>null\<close>, a
  list and an object raise. A value beyond the range of a float (an integer on which
  \<^verbatim>\<open>float\<close> raises, a string whose value Python rounds to infinity) is converted exactly,
  as floats are reals here.
\<close>

definition num_float :: "json \<Rightarrow> json option" where
  "num_float v =
     (case v of
        JInt i \<Rightarrow> Some (JFloat (real_of_int i))
      | JFloat r \<Rightarrow> Some (JFloat r)
      | JBool b \<Rightarrow> Some (JFloat (if b then 1 else 0))
      | JStr s \<Rightarrow> map_option JFloat (float_of_str s)
      | _ \<Rightarrow> None)"

definition num_int :: "json \<Rightarrow> json option" where
  "num_int v =
     (case v of
        JInt i \<Rightarrow> Some (JInt i)
      | JFloat r \<Rightarrow> Some (JInt (py_int r))
      | JBool b \<Rightarrow> Some (JInt (if b then 1 else 0))
      | JStr s \<Rightarrow> map_option JInt (int_of_str s)
      | _ \<Rightarrow> None)"

subsection \<open>Example patches\<close>

text \<open>A part of \<^verbatim>\<open>STATE\<close> with two of its defaults, and a stored per-sensor configuration.\<close>

definition state0 :: "string \<rightharpoonup> json" where
  "state0 = [''pair'' \<mapsto> JFloat 0.80, ''refract'' \<mapsto> JFloat 1.00]"

definition cfg0 :: "string \<rightharpoonup> json" where
  "cfg0 = [''moving_max_rg'' \<mapsto> JInt 8, ''report_delay_ms'' \<mapsto> JInt 500]"

text \<open>
  A patch for \<^verbatim>\<open>POST /state\<close> with a string for the pairing window, a key that is not
  public and a negative refractory period; and a patch for the per-sensor configuration
  with a string for \<^verbatim>\<open>moving_max_rg\<close> and a valid \<^verbatim>\<open>report_delay_ms\<close>.
\<close>

definition patch0 :: "(string \<times> json) list" where
  "patch0 = [(''pair'', JStr ''abc''), (''a'', JInt 1), (''refract'', JFloat (- 5))]"

definition cfg_patch0 :: "string \<rightharpoonup> json" where
  "cfg_patch0 = [''moving_max_rg'' \<mapsto> JStr ''x'', ''report_delay_ms'' \<mapsto> JInt 250]"

subsection \<open>The four counters\<close>

text \<open>The four counters of a state, and the balance between directions and classes.\<close>

definition counts :: "scope_state \<Rightarrow> int \<times> int \<times> int \<times> int" where
  "counts S = (count_A2B S, count_B2A S, count_total S, count_other S)"

definition balanced :: "scope_state \<Rightarrow> bool" where
  "balanced S \<longleftrightarrow> count_A2B S + count_B2A S = count_total S + count_other S"

subsection \<open>Example states of the direction logic\<close>

text \<open>
  Empty sampled histories, and the shared state after an edge of A at 100 and an edge of B
  at 100.4 under the default parameters; histories whose only sample of moving energy is
  \<open>v\<close>, and the default parameters with a sensor gap of 56 cm.
\<close>

definition hist0 :: "side \<Rightarrow> eng_hist" where
  "hist0 = (\<lambda>_. \<lparr>hist_me = [], hist_md = []\<rparr>)"

definition after_first_edge :: scope_state where
  "after_first_edge = emit_dir_edge default_params hist0 100 A scope_init"

definition after_first_crossing :: scope_state where
  "after_first_crossing = emit_dir_edge default_params hist0 100.4 B after_first_edge"

definition hist_peak :: "real \<Rightarrow> side \<Rightarrow> eng_hist" where
  "hist_peak v = (\<lambda>_. \<lparr>hist_me = [v], hist_md = []\<rparr>)"

definition gap56 :: dir_params where
  "gap56 = default_params\<lparr>sensor_gap_cm := 56\<rparr>"

text \<open>The same with both hold times at 0.05 s, below the least duration of 0.10 s.\<close>

definition short_hold :: dir_params where
  "short_hold = gap56\<lparr>holdA := 0.05, holdB := 0.05\<rparr>"

text \<open>
  Histories in which the peak moving energy of A is 1 and that of B is 100.
\<close>

definition hist_lag_louder :: "side \<Rightarrow> eng_hist" where
  "hist_lag_louder =
     (\<lambda>sd. case sd of A \<Rightarrow> \<lparr>hist_me = [1], hist_md = []\<rparr>
                     | B \<Rightarrow> \<lparr>hist_me = [100], hist_md = []\<rparr>)"

section \<open>Properties of report-frame extraction\<close>

lemma occurs_at_0: "occurs_at sub xs 0 \<longleftrightarrow> take (length sub) xs = sub"
proof
  assume "take (length sub) xs = sub"
  then have "length (take (length sub) xs) = length sub" by simp
  then have "length sub \<le> length xs" by simp
  with \<open>take (length sub) xs = sub\<close> show "occurs_at sub xs 0"
    by (simp add: occurs_at_def)
qed (simp add: occurs_at_def)

lemma occurs_at_Suc: "occurs_at sub (x # xs) (Suc j) \<longleftrightarrow> occurs_at sub xs j"
  by (simp add: occurs_at_def)

lemma find_sub_None: "find_sub sub xs = None \<longleftrightarrow> (\<forall>j. \<not> occurs_at sub xs j)"
proof (induction xs)
  case Nil
  show ?case by (auto simp: occurs_at_def)
next
  case (Cons x xs)
  show ?case
  proof (cases "take (length sub) (x # xs) = sub")
    case True
    then have "occurs_at sub (x # xs) 0" by (simp add: occurs_at_0)
    with True show ?thesis by auto
  next
    case False
    then have n0: "\<not> occurs_at sub (x # xs) 0" by (simp add: occurs_at_0)
    have "(\<forall>j. \<not> occurs_at sub (x # xs) j) \<longleftrightarrow> (\<forall>j. \<not> occurs_at sub xs j)"
    proof
      assume a: "\<forall>j. \<not> occurs_at sub (x # xs) j"
      show "\<forall>j. \<not> occurs_at sub xs j"
      proof
        fix j from a have "\<not> occurs_at sub (x # xs) (Suc j)" by blast
        then show "\<not> occurs_at sub xs j" by (simp add: occurs_at_Suc)
      qed
    next
      assume a: "\<forall>j. \<not> occurs_at sub xs j"
      show "\<forall>j. \<not> occurs_at sub (x # xs) j"
      proof
        fix j show "\<not> occurs_at sub (x # xs) j"
          using n0 a by (cases j) (simp_all add: occurs_at_Suc)
      qed
    qed
    with False Cons.IH show ?thesis by simp
  qed
qed

lemma find_sub_first:
  "occurs_at sub xs i \<Longrightarrow> (\<forall>j<i. \<not> occurs_at sub xs j) \<Longrightarrow> find_sub sub xs = Some i"
proof (induction xs arbitrary: i)
  case Nil
  then show ?case by (auto simp: occurs_at_def)
next
  case (Cons x xs)
  show ?case
  proof (cases i)
    case 0
    with Cons.prems(1) have "take (length sub) (x # xs) = sub" by (simp add: occurs_at_0)
    with 0 show ?thesis by simp
  next
    case (Suc k)
    with Cons.prems(2) have "\<not> occurs_at sub (x # xs) 0" by blast
    then have ne: "take (length sub) (x # xs) \<noteq> sub" by (simp add: occurs_at_0)
    from Cons.prems(1) Suc have k: "occurs_at sub xs k" by (simp add: occurs_at_Suc)
    have "\<forall>j<k. \<not> occurs_at sub xs j"
    proof (intro allI impI)
      fix j assume "j < k"
      then have "Suc j < i" using Suc by simp
      with Cons.prems(2) have "\<not> occurs_at sub (x # xs) (Suc j)" by blast
      then show "\<not> occurs_at sub xs j" by (simp add: occurs_at_Suc)
    qed
    from Cons.IH [OF k this] ne Suc show ?thesis by simp
  qed
qed

lemma occurs_at_drop:
  "sub \<noteq> [] \<Longrightarrow> occurs_at sub (drop k xs) j \<Longrightarrow> occurs_at sub xs (j + k)"
  by (cases sub) (auto simp: occurs_at_def add.commute)

text \<open>
  Claim C7. When the buffer holds a report header, first at index \<open>i\<close>, and no footer
  occurs at or after that index, \<^verbatim>\<open>extract_report_frames\<close> returns no frame and leaves in
  the buffer the header and every byte after it (only the bytes before the header are
  dropped).
\<close>

theorem header_without_footer_kept:
  assumes hdr: "occurs_at HDR_RPT buf i"
    and first: "\<forall>j<i. \<not> occurs_at HDR_RPT buf j"
    and noftr: "\<forall>j\<ge>i. \<not> occurs_at FTR_RPT buf j"
  shows "extract_report_frames buf = ([], drop i buf)"
proof -
  have h: "bytes_find buf HDR_RPT 0 = Some i"
    using find_sub_first [OF hdr first] by (simp add: bytes_find_def)
  have ne: "FTR_RPT \<noteq> []" by (simp add: FTR_RPT_def)
  have "\<forall>j. \<not> occurs_at FTR_RPT (drop 4 (drop i buf)) j"
  proof
    fix j
    have "\<not> occurs_at FTR_RPT buf (j + 4 + i)" using noftr by simp
    then show "\<not> occurs_at FTR_RPT (drop 4 (drop i buf)) j"
      using occurs_at_drop [OF ne, of 4 "drop i buf" j] occurs_at_drop [OF ne, of i buf "j + 4"]
      by blast
  qed
  then have "find_sub FTR_RPT (drop 4 (drop i buf)) = None"
    by (simp add: find_sub_None)
  then have f: "bytes_find (drop i buf) FTR_RPT 4 = None"
    by (simp add: bytes_find_def)
  have b1: "(if 0 < i then drop i buf else buf) = drop i buf" by simp
  show ?thesis
    unfolding extract_report_frames_def
    by (subst extract_loop.simps) (simp only: h f b1 option.case Let_def)
qed

theorem header_without_footer_kept_witness:
  "occurs_at HDR_RPT [0x01, 0xF4, 0xF3, 0xF2, 0xF1, 0x0D, 0xAA] 1
   \<and> \<not> occurs_at HDR_RPT [0x01, 0xF4, 0xF3, 0xF2, 0xF1, 0x0D, 0xAA] 0
   \<and> \<not> (\<exists>j\<ge>1. occurs_at FTR_RPT [0x01, 0xF4, 0xF3, 0xF2, 0xF1, 0x0D, 0xAA] j)
   \<and> extract_report_frames [0x01, 0xF4, 0xF3, 0xF2, 0xF1, 0x0D, 0xAA]
       = ([], [0xF4, 0xF3, 0xF2, 0xF1, 0x0D, 0xAA])"
proof -
  let ?buf = "[0x01, 0xF4, 0xF3, 0xF2, 0xF1, 0x0D, 0xAA] :: byte list"
  have h: "occurs_at HDR_RPT ?buf 1"
    by (simp add: occurs_at_def HDR_RPT_def)
  have f: "\<forall>j<1. \<not> occurs_at HDR_RPT ?buf j"
    by (simp add: occurs_at_def HDR_RPT_def)
  have n: "\<forall>j\<ge>1. \<not> occurs_at FTR_RPT ?buf j"
  proof (intro allI impI)
    fix j :: nat
    assume "1 \<le> j"
    show "\<not> occurs_at FTR_RPT ?buf j"
    proof
      assume o: "occurs_at FTR_RPT ?buf j"
      then have "j \<le> 3" by (simp add: occurs_at_def FTR_RPT_def)
      with \<open>1 \<le> j\<close> have "j = 1 \<or> j = 2 \<or> j = 3" by arith
      with o show False by (auto simp: occurs_at_def FTR_RPT_def)
    qed
  qed
  from header_without_footer_kept [OF h f n]
  have "extract_report_frames ?buf = ([], drop 1 ?buf)" .
  with h f n show ?thesis by simp
qed

section \<open>Properties of the simple-shape decoders\<close>

subsection \<open>The byte-at-a-time scanner\<close>

lemma loop_frames_append:
  "loop_frames s (xs @ ys) =
     (fst (loop_frames s xs) @ fst (loop_frames (snd (loop_frames s xs)) ys),
      snd (loop_frames (snd (loop_frames s xs)) ys))"
proof (induction xs arbitrary: s)
  case Nil
  show ?case by simp
next
  case (Cons x xs)
  show ?case
    by (simp add: Cons.IH split_beta Let_def split: option.split)
qed

lemma idle_skips_garbage:
  "state s = 0 \<Longrightarrow> 0xAA \<notin> set g \<Longrightarrow> loop_frames s g = ([], s)"
proof (induction g)
  case Nil
  show ?case by simp
next
  case (Cons x g)
  from Cons.prems have "x \<noteq> 0xAA" by auto
  with Cons.prems(1) have "scan_byte s x = (s, None)"
    by (simp add: scan_byte_def)
  with Cons show ?case by simp
qed

lemma idle_decodes_frame:
  assumes "state s = 0"
  shows "loop_frames s (frame fid val) = ([(fid, val)], s\<lparr>cur_id := fid, cur_val := val\<rparr>)"
  using assms by (simp add: frame_def scan_byte_def)

lemma scan_byte_same:
  assumes "same_progress s t"
  shows "snd (scan_byte s x) = snd (scan_byte t x)
         \<and> same_progress (fst (scan_byte s x)) (fst (scan_byte t x))"
  using assms by (auto simp: same_progress_def scan_byte_def)

lemma loop_frames_same:
  assumes "same_progress s t"
  shows "fst (loop_frames s xs) = fst (loop_frames t xs)
         \<and> same_progress (snd (loop_frames s xs)) (snd (loop_frames t xs))"
  using assms
proof (induction xs arbitrary: s t)
  case Nil
  then show ?case by simp
next
  case (Cons x xs)
  from scan_byte_same [OF Cons.prems, of x]
  have o: "snd (scan_byte s x) = snd (scan_byte t x)"
    and p: "same_progress (fst (scan_byte s x)) (fst (scan_byte t x))" by simp_all
  from Cons.IH [OF p] have q: "fst (loop_frames (fst (scan_byte s x)) xs)
      = fst (loop_frames (fst (scan_byte t x)) xs)"
    and r: "same_progress (snd (loop_frames (fst (scan_byte s x)) xs))
      (snd (loop_frames (fst (scan_byte t x)) xs))" by simp_all
  show ?case
    by (simp add: split_beta Let_def o q r split: option.split)
qed

lemma idle_after_any:
  assumes "state s = 0" and "scanner_idle_after g"
  shows "fst (loop_frames s g) = [] \<and> state (snd (loop_frames s g)) = 0"
proof -
  have "same_progress s scan_init" using assms(1) by (simp add: same_progress_def scan_init_def)
  from loop_frames_same [OF this, of g] assms(2) show ?thesis
    by (simp add: scanner_idle_after_def same_progress_def)
qed

lemma silent_any:
  assumes "state s = 0" and "scanner_silent g"
  shows "fst (loop_frames s g) = []"
proof -
  have "same_progress s scan_init" using assms(1) by (simp add: same_progress_def scan_init_def)
  from loop_frames_same [OF this, of g] assms(2) show ?thesis
    by (simp add: scanner_silent_def)
qed

lemma frames_between_idle_garbage:
  assumes "state s = 0" and "\<forall>(g, fid, val) \<in> set fs. scanner_idle_after g"
    and "scanner_silent tail"
  shows "fst (loop_frames s (stream fs tail)) = sent fs"
  using assms(1,2)
proof (induction fs arbitrary: s)
  case Nil
  then show ?case using silent_any [OF _ assms(3)] by (simp add: sent_def)
next
  case (Cons f fs)
  obtain g fid val where f: "f = (g, fid, val)" by (cases f)
  from Cons.prems(2) f have g: "scanner_idle_after g"
    and rest: "\<forall>(g, fid, val) \<in> set fs. scanner_idle_after g" by auto
  let ?s0 = "snd (loop_frames s g)"
  from idle_after_any [OF Cons.prems(1) g]
  have g1: "fst (loop_frames s g) = []" and s0: "state ?s0 = 0" by simp_all
  let ?s1 = "?s0\<lparr>cur_id := fid, cur_val := val\<rparr>"
  have s1: "state ?s1 = 0" using s0 by simp
  have step: "loop_frames s (g @ frame fid val @ stream fs tail) =
      ((fid, val) # fst (loop_frames ?s1 (stream fs tail)), snd (loop_frames ?s1 (stream fs tail)))"
    by (simp add: loop_frames_append g1 idle_decodes_frame [OF s0])
  from Cons.IH [OF s1 rest] step f show ?case by (simp add: sent_def)
qed

lemma mismatch_consumed:
  assumes "(state s = 4 \<and> x \<noteq> 0x00) \<or> (state s = 5 \<and> x \<noteq> 0x55) \<or> (state s = 6 \<and> x \<noteq> 0x55)"
  shows "scan_byte s x = (s\<lparr>state := 0\<rparr>, None)"
  using assms by (auto simp: scan_byte_def)

lemma frame_in_slot_lost:
  assumes "state s = 4 \<or> state s = 5 \<or> state s = 6"
  shows "fst (loop_frames s (frame fid val)) = []"
proof -
  have 1: "scan_byte s 0xAA = (s\<lparr>state := 0\<rparr>, None)"
    using assms by (intro mismatch_consumed) auto
  have 2: "fst (loop_frames s (frame fid val))
             = fst (loop_frames (s\<lparr>state := 0\<rparr>) [0xAA, fid, val, 0x00, 0x55, 0x55])"
    unfolding frame_def by (subst loop_frames.simps) (simp only: 1 split_beta Let_def, simp)
  have "same_progress (s\<lparr>state := 0\<rparr>) scan_init"
    by (simp add: same_progress_def scan_init_def)
  from loop_frames_same [OF this]
  have 3: "fst (loop_frames (s\<lparr>state := 0\<rparr>) [0xAA, fid, val, 0x00, 0x55, 0x55])
             = fst (loop_frames scan_init [0xAA, fid, val, 0x00, 0x55, 0x55])"
    by blast
  have 4: "fst (loop_frames scan_init [0xAA, fid, val, 0x00, 0x55, 0x55]) = []"
    by (cases "fid = 0xAA"; cases "val = 0xAA") (simp_all add: scan_byte_def scan_init_def)
  from 2 3 4 show ?thesis by simp
qed

subsection \<open>The buffer-based reader\<close>

lemma occurs_at_head:
  assumes "occurs_at (x # sub) xs j"
  shows "j < length xs \<and> xs ! j = x"
proof -
  from assms have j: "j < length xs" and t: "take (Suc (length sub)) (drop j xs) = x # sub"
    by (auto simp: occurs_at_def)
  from j have "drop j xs = xs ! j # drop (Suc j) xs"
    by (simp add: Cons_nth_drop_Suc)
  with t have "xs ! j = x" by simp
  with j show ?thesis by simp
qed

lemma no_sync_in_clean:
  assumes "0xAA \<notin> set g"
  shows "bytes_find g [0xAA, 0xAA] 0 = None"
proof -
  have "\<forall>j. \<not> occurs_at [0xAA, 0xAA] g j"
  proof (intro allI notI)
    fix j assume "occurs_at [0xAA, 0xAA] g j"
    from occurs_at_head [OF this] assms show False by (metis nth_mem)
  qed
  then show ?thesis by (simp add: bytes_find_def find_sub_None)
qed

lemma sync_at_frame:
  assumes "0xAA \<notin> set g0"
  shows "bytes_find (g0 @ 0xAA # 0xAA # rest) [0xAA, 0xAA] 0 = Some (length g0)"
proof -
  have o: "occurs_at [0xAA, 0xAA] (g0 @ 0xAA # 0xAA # rest) (length g0)"
    by (simp add: occurs_at_def)
  have "\<forall>j<length g0. \<not> occurs_at [0xAA, 0xAA] (g0 @ 0xAA # 0xAA # rest) j"
  proof (intro allI impI notI)
    fix j assume j: "j < length g0" and "occurs_at [0xAA, 0xAA] (g0 @ 0xAA # 0xAA # rest) j"
    from occurs_at_head [OF this(2)] have "(g0 @ 0xAA # 0xAA # rest) ! j = 0xAA" by simp
    with j have "g0 ! j = 0xAA" by (simp add: nth_append)
    with j assms show False by (metis nth_mem)
  qed
  from find_sub_first [OF o this] show ?thesis by (simp add: bytes_find_def)
qed

lemma sync_loop_candidate:
  "sync_loop w vals ([0xAA, 0xAA, b2, b3, b4, b5, b6] @ rest)
     = sync_loop w (if b5 = 0x55 \<and> b6 = 0x55 \<and> b2 = w then vals @ [b3] else vals) rest"
proof -
  have f: "bytes_find ([0xAA, 0xAA, b2, b3, b4, b5, b6] @ rest) [0xAA, 0xAA] 0 = Some 0"
    by (simp add: bytes_find_def)
  show ?thesis
    by (subst sync_loop.simps) (simp only: f option.case, simp add: Let_def)
qed

lemma sync_loop_frame:
  "sync_loop w vals (frame fid val @ rest) =
         sync_loop w (if fid = w then vals @ [val] else vals) rest"
  using sync_loop_candidate [of w vals fid val "0x00" "0x55" "0x55" rest]
  by (simp add: frame_def)

lemma find_sub_append:
  "find_sub sub xs = Some i \<Longrightarrow> find_sub sub (xs @ ys) = Some i"
proof (induction xs arbitrary: i)
  case Nil
  then show ?case by (cases ys) (simp_all split: if_splits)
next
  case (Cons x xs)
  show ?case
  proof (cases "take (length sub) (x # xs) = sub")
    case True
    then have "length (take (length sub) (x # xs)) = length sub" by simp
    then have "length sub \<le> length (x # xs)" by (simp del: take_Suc_Cons)
    then have "take (length sub) ((x # xs) @ ys) = take (length sub) (x # xs)"
      by (simp del: take_Suc_Cons append_Cons)
    with True Cons.prems show ?thesis by simp
  next
    case False
    with Cons.prems obtain k where k: "find_sub sub xs = Some k" "i = Suc k" by auto
    from find_sub_bound [OF k(1)] have "length sub \<le> length (x # xs)" by simp
    then have "take (length sub) ((x # xs) @ ys) = take (length sub) (x # xs)"
      by (simp del: take_Suc_Cons append_Cons)
    with False have "take (length sub) (x # xs @ ys) \<noteq> sub" by simp
    with Cons.IH [OF k(1)] k(2) show ?thesis by simp
  qed
qed

lemma bytes_find_append:
  "bytes_find buf sub 0 = Some i \<Longrightarrow> bytes_find (buf @ data) sub 0 = Some i"
  by (simp add: bytes_find_def find_sub_append)

lemma find_sync_tail:
  "find_sub [0xAA, 0xAA] buf = None \<Longrightarrow> buf \<noteq> [] \<Longrightarrow>
   find_sub [0xAA, 0xAA] (butlast buf @ last buf # data) =
     map_option (\<lambda>j. j + length (butlast buf)) (find_sub [0xAA, 0xAA] (last buf # data))"
proof (induction buf)
  case Nil
  then show ?case by simp
next
  case (Cons x xs)
  show ?case
  proof (cases xs)
    case Nil
    then show ?thesis by (simp add: option.map_ident)
  next
    case (Cons y ys)
    from Cons.prems(1) Cons have ne: "\<not> (x = 0xAA \<and> y = 0xAA)"
      and n: "find_sub [0xAA, 0xAA] xs = None"
      by (auto split: if_splits)
    have xs: "xs \<noteq> []" using Cons by simp
    have e: "butlast xs @ last xs # data = y # (ys @ data)"
    proof -
      have "butlast xs @ last xs # data = (butlast xs @ [last xs]) @ data" by simp
      also have "\<dots> = xs @ data" using append_butlast_last_id [OF xs] by simp
      finally show ?thesis using Cons by simp
    qed
    have "butlast (x # xs) @ last (x # xs) # data = x # (butlast xs @ last xs # data)"
      using xs by simp
    then have "find_sub [0xAA, 0xAA] (butlast (x # xs) @ last (x # xs) # data) =
        find_sub [0xAA, 0xAA] (x # y # (ys @ data))"
      by (simp only: e)
    also have "\<dots> = map_option Suc (find_sub [0xAA, 0xAA] (y # (ys @ data)))"
      using ne by auto
    also have "\<dots> = map_option Suc (find_sub [0xAA, 0xAA] (butlast xs @ last xs # data))"
      by (simp only: e)
    also have "\<dots> = map_option Suc (map_option (\<lambda>j. j + length (butlast xs))
        (find_sub [0xAA, 0xAA] (last xs # data)))"
      using Cons.IH [OF n xs] by (simp del: find_sub.simps)
    also have "\<dots> = map_option (\<lambda>j. j + length (butlast (x # xs)))
        (find_sub [0xAA, 0xAA] (last (x # xs) # data))"
    proof -
      have k: "\<And>j. Suc (j + (length xs - Suc 0)) = j + length xs"
        using xs by (cases xs) simp_all
      show ?thesis
        using xs by (simp add: option.map_comp comp_def k del: find_sub.simps)
    qed
    finally show ?thesis .
  qed
qed

lemma sync_loop_skip:
  assumes "bytes_find (pre @ xs) [0xAA, 0xAA] 0
             = map_option (\<lambda>j. j + length pre) (bytes_find xs [0xAA, 0xAA] 0)"
    and "xs \<noteq> []"
  shows "sync_loop w vals (pre @ xs) = sync_loop w vals xs"
proof (cases "bytes_find xs [0xAA, 0xAA] 0")
  case None
  with assms show ?thesis
    by (subst sync_loop.simps, subst (2) sync_loop.simps) simp
next
  case (Some j)
  with assms(1) have f: "bytes_find (pre @ xs) [0xAA, 0xAA] 0 = Some (j + length pre)" by simp
  from bytes_find_bound [OF Some] have j: "j \<le> length xs" by simp
  have d: "drop (j + length pre) (pre @ xs) = drop j xs" by simp
  have d7: "drop (j + length pre + 7) (pre @ xs) = drop (j + 7) xs" by simp
  have l: "length (pre @ xs) - (j + length pre) = length xs - j" by simp
  have z: "(if 0 < j + length pre then drop j xs else pre @ xs) = (if 0 < j then drop j xs else xs)"
    by auto
  show ?thesis
    by (subst sync_loop.simps, subst (2) sync_loop.simps)
       (simp only: f Some option.case d d7 l z)
qed


lemma find_sub_occurs:
  "find_sub sub xs = Some i \<Longrightarrow> occurs_at sub xs i"
proof (induction xs arbitrary: i)
  case Nil
  then show ?case by (simp add: occurs_at_def split: if_splits)
next
  case (Cons x xs)
  show ?case
  proof (cases "take (length sub) (x # xs) = sub")
    case True
    with Cons.prems have "i = 0" by simp
    with True show ?thesis by (simp add: occurs_at_0)
  next
    case False
    with Cons.prems obtain k where k: "find_sub sub xs = Some k" "i = Suc k" by auto
    from Cons.IH [OF k(1)] k(2) show ?thesis by (simp add: occurs_at_Suc)
  qed
qed

lemma sync_loop_resume:
  "sync_loop w (fst (sync_loop w vals buf)) (snd (sync_loop w vals buf) @ data)
     = sync_loop w vals (buf @ data)"
proof (induction w vals buf rule: sync_loop.induct)
  case (1 w vals buf)
  show ?case
  proof (cases "bytes_find buf [0xAA, 0xAA] 0")
    case None
    then have r: "sync_loop w vals buf = (vals, if buf = [] then [] else [last buf])"
      by (subst sync_loop.simps) simp
    show ?thesis
    proof (cases "buf = []")
      case True
      with r show ?thesis by simp
    next
      case False
      from None have "find_sub [0xAA, 0xAA] buf = None" by (simp add: bytes_find_def)
      from find_sync_tail [OF this False, of data]
      have "bytes_find (butlast buf @ (last buf # data)) [0xAA, 0xAA] 0
              = map_option (\<lambda>j. j + length (butlast buf)) (bytes_find (last buf # data) [0xAA, 0xAA] 0)"
        by (simp add: bytes_find_def option.map_comp comp_def del: find_sub.simps)
      from sync_loop_skip [OF this, of w vals]
      have "sync_loop w vals (butlast buf @ last buf # data) = sync_loop w vals (last buf # data)"
        by simp
      moreover have "butlast buf @ last buf # data = buf @ data"
        using append_butlast_last_id [OF False] by (metis append_Cons append_Nil append_assoc)
      ultimately show ?thesis using r False by simp
    qed
  next
    case (Some i)
    from bytes_find_bound [OF Some] have i: "i + 2 \<le> length buf" by simp
    have fa: "bytes_find (buf @ data) [0xAA, 0xAA] 0 = Some i"
      using Some by (rule bytes_find_append)
    show ?thesis
    proof (cases "length buf - i < 7")
      case True
      with Some have r: "sync_loop w vals buf = (vals, drop i buf)"
        by (subst sync_loop.simps) auto
      have "occurs_at [0xAA, 0xAA] (drop i buf @ data) 0"
      proof -
        from Some have "find_sub [0xAA, 0xAA] buf = Some i" by (simp add: bytes_find_def)
        from find_sub_occurs [OF this] show ?thesis
          by (auto simp: occurs_at_def)
      qed
      then have "find_sub [0xAA, 0xAA] (drop i buf @ data) = Some 0"
        using find_sub_first by blast
      then have f0: "bytes_find (drop i buf @ data) [0xAA, 0xAA] 0 = Some 0"
        by (simp add: bytes_find_def)
      have e: "take i buf @ (drop i buf @ data) = buf @ data"
        by (metis append_assoc append_take_drop_id)
      have "bytes_find (take i buf @ (drop i buf @ data)) [0xAA, 0xAA] 0
              = map_option (\<lambda>j. j + length (take i buf)) (bytes_find (drop i buf @ data) [0xAA, 0xAA] 0)"
        unfolding e using fa f0 i by (simp add: min_def)
      from sync_loop_skip [OF this, of w vals] i
      have "sync_loop w vals (take i buf @ (drop i buf @ data)) = sync_loop w vals (drop i buf @ data)"
        by auto
      then have "sync_loop w vals (buf @ data) = sync_loop w vals (drop i buf @ data)"
        unfolding e .
      with r show ?thesis by simp
    next
      case False
      let ?frame = "take 7 (drop i buf)"
      let ?ok = "?frame ! 0 = 0xAA \<and> ?frame ! 1 = 0xAA \<and> ?frame ! 5 = 0x55 \<and> ?frame ! 6 = 0x55"
      let ?v2 = "if ?ok \<and> ?frame ! 2 = w then vals @ [?frame ! 3] else vals"
      have r: "sync_loop w vals buf = sync_loop w ?v2 (drop (i + 7) buf)"
        using Some False by (subst sync_loop.simps) (simp add: Let_def)
      have l: "\<not> length (buf @ data) - i < 7" using False by simp
      have t: "take 7 (drop i (buf @ data)) = ?frame" using False by simp
      have d: "drop (i + 7) (buf @ data) = drop (i + 7) buf @ data" using False by simp
      have r2: "sync_loop w vals (buf @ data) = sync_loop w ?v2 (drop (i + 7) buf @ data)"
        by (subst sync_loop.simps) (simp only: fa option.case l if_False t d Let_def, simp)
      have ih: "sync_loop w (fst (sync_loop w ?v2 (drop (i + 7) buf)))
                  (snd (sync_loop w ?v2 (drop (i + 7) buf)) @ data)
                = sync_loop w ?v2 (drop (i + 7) buf @ data)"
      proof (cases "?ok")
        case ok: True
        show ?thesis
        proof (cases "?frame ! 2 = w")
          case True
          from "1.IH"(1) [OF Some False refl refl ok refl refl True] ok True
          show ?thesis by simp
        next
          case ne: False
          from "1.IH"(2) [OF Some False refl refl ok refl refl ne] ok ne
          show ?thesis by simp
        qed
      next
        case nok: False
        from "1.IH"(3) [OF Some False refl refl nok] nok
        show ?thesis by auto
      qed
      from r r2 ih show ?thesis by simp
    qed
  qed
qed

lemma sync_loop_empty: "sync_loop w vals [] = (vals, [])"
  by (subst sync_loop.simps) (simp add: bytes_find_def)

lemma reader_run_chunks:
  "reader_run w (fst (sync_loop w vals buf)) (snd (sync_loop w vals buf)) chunks =
     sync_loop w vals (buf @ concat chunks)"
proof (induction chunks arbitrary: buf)
  case Nil
  show ?case by simp
next
  case (Cons d cs)
  show ?case
  proof (cases "d = []")
    case True
    with Cons.IH [of buf] show ?thesis by simp
  next
    case False
    have "reader_run w (fst (sync_loop w vals buf)) (snd (sync_loop w vals buf)) (d # cs) =
          reader_run w (fst (sync_loop w vals (buf @ d))) (snd (sync_loop w vals (buf @ d))) cs"
      using False by (simp add: split_beta sync_loop_resume)
    also have "\<dots> = sync_loop w vals ((buf @ d) @ concat cs)"
      by (rule Cons.IH)
    finally show ?thesis by simp
  qed
qed

lemma reader_run_concat:
  "reader_run w [] [] chunks = sync_loop w [] (concat chunks)"
  using reader_run_chunks [of w "[]" "[]" chunks]
  by (simp add: sync_loop_empty)

lemma sync_loop_vals:
  "sync_loop w (pre @ vals) buf = (pre @ fst (sync_loop w vals buf), snd (sync_loop w vals buf))"
proof (induction w vals buf arbitrary: pre rule: sync_loop.induct)
  case (1 w vals buf)
  show ?case
  proof (cases "bytes_find buf [0xAA, 0xAA] 0")
    case None
    then have "sync_loop w v buf = (v, if buf = [] then [] else [last buf])" for v
      by (subst sync_loop.simps) simp
    then show ?thesis by simp
  next
    case (Some i)
    show ?thesis
    proof (cases "length buf - i < 7")
      case True
      with Some have "sync_loop w v buf = (v, if 0 < i then drop i buf else buf)" for v
        by (subst sync_loop.simps) simp
      then show ?thesis by simp
    next
      case False
      let ?frame = "take 7 (drop i buf)"
      let ?ok = "?frame ! 0 = 0xAA \<and> ?frame ! 1 = 0xAA \<and> ?frame ! 5 = 0x55 \<and> ?frame ! 6 = 0x55"
      have r: "sync_loop w v buf
                 = sync_loop w (if ?ok \<and> ?frame ! 2 = w then v @ [?frame ! 3] else v)
                     (drop (i + 7) buf)" for v
        using Some False by (subst sync_loop.simps) (simp add: Let_def)
      show ?thesis
      proof (cases "?ok")
        case ok: True
        show ?thesis
        proof (cases "?frame ! 2 = w")
          case True
          from "1.IH"(1) [OF Some False refl refl ok refl refl True, of pre] ok True
          show ?thesis by (simp add: r)
        next
          case ne: False
          from "1.IH"(2) [OF Some False refl refl ok refl refl ne, of pre] ok ne
          show ?thesis by (simp add: r)
        qed
      next
        case nok: False
        from "1.IH"(3) [OF Some False refl refl nok, of pre] nok
        show ?thesis by (auto simp: r)
      qed
    qed
  qed
qed

lemma reader_skips_idle_garbage:
  assumes "reader_idle_after w g"
  shows "sync_loop w vals (g @ frame fid val @ rest) =
         sync_loop w (if fid = w then vals @ [val] else vals) rest"
proof -
  let ?data = "[fid, val, 0x00, 0x55, 0x55] @ rest"
  have R: "sync_loop w vals (g @ [0xAA, 0xAA]) = (vals, [0xAA, 0xAA])"
    using sync_loop_vals [of w vals "[]" "g @ [0xAA, 0xAA]"] assms
    by (simp add: reader_idle_after_def)
  have "sync_loop w vals ((g @ [0xAA, 0xAA]) @ ?data)
          = sync_loop w (fst (sync_loop w vals (g @ [0xAA, 0xAA])))
              (snd (sync_loop w vals (g @ [0xAA, 0xAA])) @ ?data)"
    by (rule sync_loop_resume [symmetric])
  also have "\<dots> = sync_loop w vals (frame fid val @ rest)"
    by (simp add: R frame_def)
  also have "\<dots> = sync_loop w (if fid = w then vals @ [val] else vals) rest"
    by (rule sync_loop_frame)
  finally show ?thesis by (simp add: frame_def)
qed

lemma sync_loop_stream:
  assumes "\<forall>(g, fid, val) \<in> set fs. reader_idle_after w g" and "reader_silent w tail"
  shows "fst (sync_loop w vals (stream fs tail)) = vals @ wanted w fs"
  using assms(1)
proof (induction fs arbitrary: vals)
  case Nil
  show ?case
    using sync_loop_vals [of w vals "[]" tail] assms(2)
    by (simp add: reader_silent_def wanted_def)
next
  case (Cons f fs)
  obtain g fid val where f: "f = (g, fid, val)" by (cases f)
  from Cons.prems f have g: "reader_idle_after w g"
    and rest: "\<forall>(g, fid, val) \<in> set fs. reader_idle_after w g" by auto
  show ?case
    using Cons.IH [OF rest] f
    by (simp add: reader_skips_idle_garbage [OF g] wanted_def)
qed

lemma clean_garbage_is_idle:
  assumes "0xAA \<notin> set g"
  shows "scanner_idle_after g \<and> scanner_silent g \<and> reader_idle_after w g \<and> reader_silent w g"
proof -
  have i: "state scan_init = 0" by (simp add: scan_init_def)
  from idle_skips_garbage [OF i assms]
  have a: "scanner_idle_after g \<and> scanner_silent g"
    by (simp add: scanner_idle_after_def scanner_silent_def i)
  have f: "bytes_find (g @ [0xAA, 0xAA]) [0xAA, 0xAA] 0 = Some (length g)"
    using sync_at_frame [OF assms, of "[]"] by simp
  have b: "reader_idle_after w g"
    unfolding reader_idle_after_def
    by (subst sync_loop.simps) (simp add: f)
  have c: "reader_silent w g"
    unfolding reader_silent_def
    by (subst sync_loop.simps) (simp add: no_sync_in_clean [OF assms])
  from a b c show ?thesis by simp
qed

subsection \<open>Frames between garbage\<close>

text \<open>
  The claim as stated fails: after the garbage \<^verbatim>\<open>AA AA 02 05\<close> the first \<open>AA\<close> of a valid
  frame arrives in the slot where \<open>00\<close> is expected and is dropped, and the frame is lost by
  both decoders.
\<close>

theorem stray_sync_frame_lost:
  "decoded_samples (stream [([0xAA, 0xAA, 0x02, 0x05], 0x02, 0x07)] []) = []
   \<and> fst (reader_run 0x02 [] [] [stream [([0xAA, 0xAA, 0x02, 0x05], 0x02, 0x07)] []]) = []"
proof -
  have a: "decoded_samples (stream [([0xAA, 0xAA, 0x02, 0x05], 0x02, 0x07)] []) = []"
    by (simp add: decoded_samples_def frame_def scan_byte_def scan_init_def)
  have b: "fst (reader_run 0x02 [] [] [stream [([0xAA, 0xAA, 0x02, 0x05], 0x02, 0x07)] []]) = []"
    by (simp add: frame_def sync_loop.simps bytes_find_def)
  from a b show ?thesis by simp
qed

text \<open>
  Claim C1, as amended. The input is a list of valid frames, each preceded by a garbage
  segment, and a last garbage segment. When every garbage segment before a frame leaves
  the decoder ready for the next frame and the last segment is silent, \<^verbatim>\<open>loop_frames\<close>
  calls \<^verbatim>\<open>on_frame\<close> for exactly the frames sent, in order and with their id and value, and
  reports those with id 1 or 2; and \<^verbatim>\<open>RD03EReader.run\<close>, however the stream is cut into
  reads, assigns exactly the values of the frames that carry the wanted id. Every segment
  without the byte \<open>AA\<close> is such a segment, for both decoders. A stray \<open>AA\<close> in a slot
  where \<open>00\<close> or \<open>55\<close> is expected is not examined again: \<^verbatim>\<open>loop_frames\<close> consumes every
  mismatching byte of the states 4, 5 and 6 and returns to state 0, so that a frame
  whose first byte arrives in such a state is not reported; \<^verbatim>\<open>RD03EReader.run\<close> deletes all
  seven bytes of a candidate, assigning its value when its last two bytes are \<open>55 55\<close>
  and its id is the wanted one, whatever its fifth byte is.
\<close>

theorem idle_garbage_frames_decoded:
  "((\<forall>(g, fid, val) \<in> set fs. scanner_idle_after g) \<and> scanner_silent tail \<longrightarrow>
      fst (loop_frames scan_init (stream fs tail)) = sent fs
      \<and> decoded_samples (stream fs tail) = filter on_frame_reports (sent fs))
   \<and> ((\<forall>(g, fid, val) \<in> set fs. reader_idle_after want_id g) \<and> reader_silent want_id tail
        \<and> concat chunks = stream fs tail \<longrightarrow>
      fst (reader_run want_id [] [] chunks) = wanted want_id fs)
   \<and> (0xAA \<notin> set g \<longrightarrow>
        scanner_idle_after g \<and> scanner_silent g
        \<and> reader_idle_after want_id g \<and> reader_silent want_id g)
   \<and> ((state s = 4 \<and> x \<noteq> 0x00) \<or> (state s = 5 \<and> x \<noteq> 0x55) \<or> (state s = 6 \<and> x \<noteq> 0x55) \<longrightarrow>
        scan_byte s x = (s\<lparr>state := 0\<rparr>, None))
   \<and> (state s = 4 \<or> state s = 5 \<or> state s = 6 \<longrightarrow>
        fst (loop_frames s (frame fid val)) = [])
   \<and> sync_loop want_id vals ([0xAA, 0xAA, cid, cval, pad, ea, eb] @ rest)
       = sync_loop want_id (if ea = 0x55 \<and> eb = 0x55 \<and> cid = want_id then vals @ [cval] else vals)
           rest"
proof -
  have i: "state scan_init = 0" by (simp add: scan_init_def)
  have 1: "fst (loop_frames scan_init (stream fs tail)) = sent fs
      \<and> decoded_samples (stream fs tail) = filter on_frame_reports (sent fs)"
    if "(\<forall>(g, fid, val) \<in> set fs. scanner_idle_after g) \<and> scanner_silent tail"
    using frames_between_idle_garbage [OF i, of fs tail] that
    by (simp add: decoded_samples_def)
  have 2: "fst (reader_run want_id [] [] chunks) = wanted want_id fs"
    if "(\<forall>(g, fid, val) \<in> set fs. reader_idle_after want_id g) \<and> reader_silent want_id tail
        \<and> concat chunks = stream fs tail"
    using sync_loop_stream [of fs want_id tail "[]"] that
    by (simp add: reader_run_concat)
  from 1 2 clean_garbage_is_idle [of g want_id] mismatch_consumed [of s x]
    frame_in_slot_lost [of s fid val] sync_loop_candidate [of want_id vals cid cval pad ea eb rest]
  show ?thesis by blast
qed

theorem idle_garbage_frames_decoded_witness:
  "scanner_idle_after [0x01, 0xAA, 0x05]
   \<and> scanner_idle_after [0xAA, 0xAA, 0x02, 0x05, 0xFF, 0x00, 0x00]
   \<and> scanner_silent [0x03]
   \<and> reader_idle_after 0x02 [0x01, 0xAA, 0x05]
   \<and> reader_idle_after 0x02 [0xAA, 0xAA, 0x02, 0x05, 0xFF, 0x00, 0x00]
   \<and> reader_silent 0x02 [0x03]
   \<and> concat noisy_chunks = stream noisy_frames [0x03]
   \<and> fst (loop_frames scan_init (stream noisy_frames [0x03])) = [(0x02, 0x07), (0x01, 0x09)]
   \<and> decoded_samples (stream noisy_frames [0x03]) = [(0x02, 0x07), (0x01, 0x09)]
   \<and> fst (reader_run 0x02 [] [] noisy_chunks) = [0x07]
   \<and> 0xAA \<notin> set [0x03 :: byte]
   \<and> state awaiting_pad = 4
   \<and> scan_byte awaiting_pad 0xAA = (awaiting_pad\<lparr>state := 0\<rparr>, None)
   \<and> fst (loop_frames awaiting_pad (frame 0x02 0x07)) = []
   \<and> fst (sync_loop 0x02 [] ([0xAA, 0xAA, 0x02, 0x07, 0xFF, 0x55, 0x55] @ [])) = [0x07]
   \<and> fst (sync_loop 0x02 []
        ([0xAA, 0xAA, 0x02, 0x07, 0x00, 0xAA, 0xAA] @ [0x02, 0x09, 0x00, 0x55, 0x55])) = []"
proof -
  note t = idle_garbage_frames_decoded
    [where fs = noisy_frames and tail = "[0x03]" and want_id = "0x02" and chunks = noisy_chunks
       and g = "[0x03]" and s = awaiting_pad and x = "0xAA" and fid = "0x02" and val = "0x07"
       and vals = "[]"]
  have s1: "scanner_idle_after [0x01, 0xAA, 0x05]"
    and s2: "scanner_idle_after [0xAA, 0xAA, 0x02, 0x05, 0xFF, 0x00, 0x00]"
    and s3: "scanner_silent [0x03]"
    by (simp_all add: scanner_idle_after_def scanner_silent_def scan_byte_def scan_init_def)
  have r1: "reader_idle_after 0x02 [0x01, 0xAA, 0x05]"
    and r2: "reader_idle_after 0x02 [0xAA, 0xAA, 0x02, 0x05, 0xFF, 0x00, 0x00]"
    and r3: "reader_silent 0x02 [0x03]"
    by (simp_all add: reader_idle_after_def reader_silent_def sync_loop.simps bytes_find_def)
  have c: "concat noisy_chunks = stream noisy_frames [0x03]"
    by (simp add: noisy_chunks_def noisy_frames_def frame_def)
  have H1: "(\<forall>(g, fid, val) \<in> set noisy_frames. scanner_idle_after g) \<and> scanner_silent [0x03]"
    using s1 s2 s3 by (simp add: noisy_frames_def)
  have H2: "(\<forall>(g, fid, val) \<in> set noisy_frames. reader_idle_after 0x02 g)
      \<and> reader_silent 0x02 [0x03] \<and> concat noisy_chunks = stream noisy_frames [0x03]"
    using r1 r2 r3 c by (simp add: noisy_frames_def)
  from t H1 have "fst (loop_frames scan_init (stream noisy_frames [0x03])) = sent noisy_frames
      \<and> decoded_samples (stream noisy_frames [0x03]) = filter on_frame_reports (sent noisy_frames)"
    by blast
  then have C1: "fst (loop_frames scan_init (stream noisy_frames [0x03])) = [(0x02, 0x07), (0x01, 0x09)]
      \<and> decoded_samples (stream noisy_frames [0x03]) = [(0x02, 0x07), (0x01, 0x09)]"
    by (simp add: sent_def noisy_frames_def on_frame_reports_def)
  from t H2 have "fst (reader_run 0x02 [] [] noisy_chunks) = wanted 0x02 noisy_frames"
    by blast
  then have C2: "fst (reader_run 0x02 [] [] noisy_chunks) = [0x07]"
    by (simp add: wanted_def noisy_frames_def)
  have g: "0xAA \<notin> set [0x03 :: byte]" by simp
  have a: "state awaiting_pad = 4"
    by (simp add: awaiting_pad_def scan_byte_def scan_init_def)
  have n: "(0xAA :: byte) \<noteq> 0x00" by simp
  from t a n have C3: "scan_byte awaiting_pad 0xAA = (awaiting_pad\<lparr>state := 0\<rparr>, None)"
    by blast
  from t a have C4: "fst (loop_frames awaiting_pad (frame 0x02 0x07)) = []"
    by blast
  from idle_garbage_frames_decoded
    [where want_id = "0x02" and vals = "[]" and cid = "0x02" and cval = "0x07" and pad = "0xFF"
       and ea = "0x55" and eb = "0x55" and rest = "[]"]
  have "sync_loop 0x02 [] ([0xAA, 0xAA, 0x02, 0x07, 0xFF, 0x55, 0x55] @ [])
          = sync_loop 0x02 (if (0x55 :: byte) = 0x55 \<and> (0x55 :: byte) = 0x55 \<and> (0x02 :: byte) = 0x02
                            then [] @ [0x07] else []) []"
    by blast
  then have C5: "fst (sync_loop 0x02 [] ([0xAA, 0xAA, 0x02, 0x07, 0xFF, 0x55, 0x55] @ [])) = [0x07]"
    by (simp add: sync_loop_empty)
  from idle_garbage_frames_decoded
    [where want_id = "0x02" and vals = "[]" and cid = "0x02" and cval = "0x07" and pad = "0x00"
       and ea = "0xAA" and eb = "0xAA" and rest = "[0x02, 0x09, 0x00, 0x55, 0x55]"]
  have "sync_loop 0x02 [] ([0xAA, 0xAA, 0x02, 0x07, 0x00, 0xAA, 0xAA] @ [0x02, 0x09, 0x00, 0x55, 0x55])
          = sync_loop 0x02 (if (0xAA :: byte) = 0x55 \<and> (0xAA :: byte) = 0x55 \<and> (0x02 :: byte) = 0x02
                            then [] @ [0x07] else []) [0x02, 0x09, 0x00, 0x55, 0x55]"
    by blast
  moreover have "sync_loop 0x02 [] [0x02, 0x09, 0x00, 0x55, 0x55] = ([], [0x55])"
    by (subst sync_loop.simps) (simp add: bytes_find_def)
  ultimately have C6: "fst (sync_loop 0x02 []
      ([0xAA, 0xAA, 0x02, 0x07, 0x00, 0xAA, 0xAA] @ [0x02, 0x09, 0x00, 0x55, 0x55])) = []"
    by simp
  from s1 s2 s3 r1 r2 r3 c C1 C2 g a C3 C4 C5 C6 show ?thesis by blast
qed
section \<open>Properties of the guarded pairing loop\<close>

lemma pairing_singletons:
  "pairing args (s\<lparr>qA := [a], qB := [b]\<rparr>) = pair_step args a [] b [] (s\<lparr>qA := [a], qB := [b]\<rparr>)"
proof -
  let ?s1 = "pair_step args a [] b [] (s\<lparr>qA := [a], qB := [b]\<rparr>)"
  have "qA ?s1 = [] \<or> qB ?s1 = []"
    by (simp add: pair_step_def Let_def)
  then have "pairing args ?s1 = ?s1"
    by (subst pairing.simps) (auto split: list.split)
  then show ?thesis
    by (subst pairing.simps) simp
qed

lemma min_dt_discards:
  assumes "\<bar>pair_time args a - pair_time args b\<bar> \<le> arg_pair args"
    and "\<bar>pair_time args a - pair_time args b\<bar> < arg_min_dt args"
  shows "pair_step args a qa b qb s = s\<lparr>qA := qa, qB := qb\<rparr>"
  using assms by (simp add: pair_step_def Let_def)

lemma accept_step:
  assumes "pair_time args a < pair_time args b"
    and "\<bar>pair_time args a - pair_time args b\<bar> \<le> arg_pair args"
    and "arg_min_dt args \<le> \<bar>pair_time args a - pair_time args b\<bar>"
    and "arg_amp_ratio args * peak_amp b \<le> peak_amp a"
    and "arg_refract args \<le> max (peak_t a) (peak_t b) - last_cross_t s"
  shows "pair_step args a qa b qb s =
     s\<lparr>qA := qa, qB := qb, last_cross_t := max (peak_t a) (peak_t b), inbound := inbound s + 1,
       crossings := crossings s @ [(''A->B'', \<bar>pair_time args a - pair_time args b\<bar>)]\<rparr>"
  using assms by (simp add: pair_step_def Let_def amp_ok_def)

lemma pairing_cons:
  "qA s = a # qa \<Longrightarrow> qB s = b # qb \<Longrightarrow> pairing args s = pairing args (pair_step args a qa b qb s)"
  by (subst pairing.simps) simp

lemma pairing_done:
  "qA s = [] \<or> qB s = [] \<Longrightarrow> pairing args s = s"
  by (subst pairing.simps) (auto split: list.split)

lemma spec_args_simps:
  "arg_pair spec_args = 0.8" "arg_min_dt spec_args = 0.1" "arg_amp_ratio spec_args = 1"
  "arg_refract spec_args = 1" "arg_pair_mode spec_args = Start"
  by (simp_all add: spec_args_def default_args_def)

lemma burst_simps:
  "start_t (burst sd t amp) = t" "peak_t (burst sd t amp) = t" "peak_amp (burst sd t amp) = amp"
  by (simp_all add: burst_def)

lemma pair_time_burst: "pair_time args (burst sd t amp) = t"
  by (simp add: pair_time_def burst_simps)







subsection \<open>The states the loop of \<^verbatim>\<open>main\<close> reaches\<close>

lemma chain_snoc:
  "chain R L (q @ [e]) \<longleftrightarrow> chain R L q \<and> qend L q + R \<le> start_t e \<and> wf_ev e"
  by (induction q arbitrary: L) auto

lemma qend_snoc: "qend L (q @ [e]) = end_t e"
  by (induction q arbitrary: L) auto

lemma det_update_ok:
  assumes "det_ok R ts d"
  shows "det_ok R ts (snd (det_update v ts d))"
  using assms
  by (auto simp: det_ok_def det_update_def Let_def split: option.split)

lemma det_update_none:
  assumes "fst (det_update v ts d) = None"
  shows "det_last_emit_t (snd (det_update v ts d)) = det_last_emit_t d"
  using assms
  by (auto simp: det_update_def Let_def split: option.split if_splits)

lemma det_update_some:
  assumes "det_ok R ts d" and "fst (det_update v ts d) = Some e"
  shows "det_last_emit_t d + R \<le> start_t e \<and> wf_ev e \<and> end_t e = ts
         \<and> det_last_emit_t (snd (det_update v ts d)) = ts"
  using assms
  by (auto simp: det_ok_def det_update_def Let_def wf_ev_def split: option.split if_splits)

lemma queues_ok_dropA:
  assumes "0 \<le> R" and "queues_ok R EA EB p" and "qA p = a # qa"
  shows "queues_ok R EA EB (p\<lparr>qA := qa\<rparr>)"
proof -
  from assms(2) obtain LA LB where
    c: "chain R LA (qA p)" "chain R LB (qB p)" "qend LA (qA p) = EA" "qend LB (qB p) = EB"
       "last_cross_t p \<le> max LA LB"
    by (auto simp: queues_ok_def)
  from c(1) assms(1,3) have "LA \<le> end_t a" by (simp add: wf_ev_def)
  with c(5) have "last_cross_t p \<le> max (end_t a) LB" by simp
  with c assms(3) show ?thesis
    unfolding queues_ok_def by (intro exI [of _ "end_t a"] exI [of _ LB]) simp
qed

lemma queues_ok_dropB:
  assumes "0 \<le> R" and "queues_ok R EA EB p" and "qB p = b # qb"
  shows "queues_ok R EA EB (p\<lparr>qB := qb\<rparr>)"
proof -
  from assms(2) obtain LA LB where
    c: "chain R LA (qA p)" "chain R LB (qB p)" "qend LA (qA p) = EA" "qend LB (qB p) = EB"
       "last_cross_t p \<le> max LA LB"
    by (auto simp: queues_ok_def)
  from c(2) assms(1,3) have "LB \<le> end_t b" by (simp add: wf_ev_def)
  with c(5) have "last_cross_t p \<le> max LA (end_t b)" by simp
  with c assms(3) show ?thesis
    unfolding queues_ok_def by (intro exI [of _ LA] exI [of _ "end_t b"]) simp
qed

lemma queues_ok_accept:
  assumes "queues_ok R EA EB p" and "qA p = a # qa" and "qB p = b # qb"
  shows "queues_ok R EA EB (p\<lparr>qA := qa, qB := qb, last_cross_t := max (peak_t a) (peak_t b)\<rparr>)"
proof -
  from assms(1) obtain LA LB where
    c: "chain R LA (qA p)" "chain R LB (qB p)" "qend LA (qA p) = EA" "qend LB (qB p) = EB"
    by (auto simp: queues_ok_def)
  from c(1,2) assms(2,3) have "peak_t a \<le> end_t a" "peak_t b \<le> end_t b"
    by (simp_all add: wf_ev_def)
  then have "max (peak_t a) (peak_t b) \<le> max (end_t a) (end_t b)" by (simp add: max_def)
  with c assms(2,3) show ?thesis
    unfolding queues_ok_def by (intro exI [of _ "end_t a"] exI [of _ "end_t b"]) simp
qed

lemma guard_from_queues:
  assumes "queues_ok R EA EB p" and "qA p = a # qa" and "qB p = b # qb"
  shows "R \<le> max (peak_t a) (peak_t b) - last_cross_t p"
proof -
  from assms(1) obtain LA LB where
    c: "chain R LA (qA p)" "chain R LB (qB p)" "last_cross_t p \<le> max LA LB"
    by (auto simp: queues_ok_def)
  from c(1,2) assms(2,3) have "LA + R \<le> peak_t a" "LB + R \<le> peak_t b"
    by (simp_all add: wf_ev_def)
  with c(3) show ?thesis by (simp add: max_def split: if_splits)
qed

lemma pair_step_cases:
  "pair_step args a qa b qb p = p\<lparr>qA := qa\<rparr>
   \<or> pair_step args a qa b qb p = p\<lparr>qB := qb\<rparr>
   \<or> pair_step args a qa b qb p = p\<lparr>qA := qa, qB := qb\<rparr>
   \<or> (\<exists>i out cs. pair_step args a qa b qb p
        = p\<lparr>qA := qa, qB := qb, last_cross_t := max (peak_t a) (peak_t b),
            inbound := i, outbound := out, crossings := cs\<rparr>)"
proof -
  have x: "\<exists>i out cs. p\<lparr>last_cross_t := t, inbound := k, crossings := c, qA := qa, qB := qb\<rparr>
        = p\<lparr>qA := qa, qB := qb, last_cross_t := t, inbound := i, outbound := out, crossings := cs\<rparr>"
    for t k c
    by (intro exI [of _ k] exI [of _ "outbound p"] exI [of _ c]) simp
  have y: "\<exists>i out cs. p\<lparr>last_cross_t := t, outbound := k, crossings := c, qA := qa, qB := qb\<rparr>
        = p\<lparr>qA := qa, qB := qb, last_cross_t := t, inbound := i, outbound := out, crossings := cs\<rparr>"
    for t k c
    by (intro exI [of _ "inbound p"] exI [of _ k] exI [of _ c]) simp
  show ?thesis
    using x y by (simp add: pair_step_def Let_def)
qed

lemma queues_ok_pair_step:
  assumes "0 \<le> R" and "queues_ok R EA EB p" and "qA p = a # qa" and "qB p = b # qb"
  shows "queues_ok R EA EB (pair_step args a qa b qb p)"
proof -
  have both: "queues_ok R EA EB (p\<lparr>qA := qa, qB := qb\<rparr>)"
    using queues_ok_dropB [OF assms(1) queues_ok_dropA [OF assms(1,2,3)], of b qb] assms(4)
    by simp
  have acc: "queues_ok R EA EB
      (p\<lparr>qA := qa, qB := qb, last_cross_t := max (peak_t a) (peak_t b),
            inbound := i, outbound := out, crossings := cs\<rparr>)" for i out cs
    using queues_ok_accept [OF assms(2,3,4)] by (simp add: queues_ok_def)
  from pair_step_cases [of args a qa b qb p] show ?thesis
    using queues_ok_dropA [OF assms(1,2,3)] queues_ok_dropB [OF assms(1,2,4)] both acc
    by auto
qed

lemma queues_ok_appendA:
  assumes "queues_ok R EA EB p" and "EA + R \<le> start_t e" and "wf_ev e"
  shows "queues_ok R (end_t e) EB (p\<lparr>qA := qA p @ [e]\<rparr>)"
  using assms by (auto simp: queues_ok_def chain_snoc qend_snoc)

lemma queues_ok_appendB:
  assumes "queues_ok R EA EB p" and "EB + R \<le> start_t e" and "wf_ev e"
  shows "queues_ok R EA (end_t e) (p\<lparr>qB := qB p @ [e]\<rparr>)"
  using assms by (auto simp: queues_ok_def chain_snoc qend_snoc)

lemma inv_feedA:
  assumes "main_inv R s"
  shows "main_inv R (feedA s)"
proof (cases "rd_last_ts (rdA s) = 0")
  case True
  with assms show ?thesis by (simp add: feedA_def)
next
  case False
  let ?r = "det_update (rd_value (rdA s)) (rd_last_ts (rdA s)) (detA s)"
  from assms have q: "queues_ok R (det_last_emit_t (detA s)) (det_last_emit_t (detB s)) (pairer s)"
    and a: "det_ok R (rd_last_ts (rdA s)) (detA s)"
    and b: "det_ok R (rd_last_ts (rdB s)) (detB s)"
    by (simp_all add: main_inv_def)
  have a': "det_ok R (rd_last_ts (rdA s)) (snd ?r)" by (rule det_update_ok [OF a])
  show ?thesis
  proof (cases "fst ?r")
    case None
    then have "det_last_emit_t (snd ?r) = det_last_emit_t (detA s)" by (rule det_update_none)
    with None False q a' b show ?thesis
      by (simp add: feedA_def main_inv_def split_beta)
  next
    case (Some e)
    from det_update_some [OF a Some]
    have e: "det_last_emit_t (detA s) + R \<le> start_t e" "wf_ev e" "end_t e = rd_last_ts (rdA s)"
      "det_last_emit_t (snd ?r) = rd_last_ts (rdA s)" by simp_all
    from queues_ok_appendA [OF q e(1,2)] e(3,4)
    have "queues_ok R (det_last_emit_t (snd ?r)) (det_last_emit_t (detB s))
            ((pairer s)\<lparr>qA := qA (pairer s) @ [e]\<rparr>)" by simp
    with Some False a' b show ?thesis
      by (simp add: feedA_def main_inv_def split_beta)
  qed
qed

lemma inv_feedB:
  assumes "main_inv R s"
  shows "main_inv R (feedB s)"
proof (cases "rd_last_ts (rdB s) = 0")
  case True
  with assms show ?thesis by (simp add: feedB_def)
next
  case False
  let ?r = "det_update (rd_value (rdB s)) (rd_last_ts (rdB s)) (detB s)"
  from assms have q: "queues_ok R (det_last_emit_t (detA s)) (det_last_emit_t (detB s)) (pairer s)"
    and a: "det_ok R (rd_last_ts (rdA s)) (detA s)"
    and b: "det_ok R (rd_last_ts (rdB s)) (detB s)"
    by (simp_all add: main_inv_def)
  have b': "det_ok R (rd_last_ts (rdB s)) (snd ?r)" by (rule det_update_ok [OF b])
  show ?thesis
  proof (cases "fst ?r")
    case None
    then have "det_last_emit_t (snd ?r) = det_last_emit_t (detB s)" by (rule det_update_none)
    with None False q a b' show ?thesis
      by (simp add: feedB_def main_inv_def split_beta)
  next
    case (Some e)
    from det_update_some [OF b Some]
    have e: "det_last_emit_t (detB s) + R \<le> start_t e" "wf_ev e" "end_t e = rd_last_ts (rdB s)"
      "det_last_emit_t (snd ?r) = rd_last_ts (rdB s)" by simp_all
    from queues_ok_appendB [OF q e(1,2)] e(3,4)
    have "queues_ok R (det_last_emit_t (detA s)) (det_last_emit_t (snd ?r))
            ((pairer s)\<lparr>qB := qB (pairer s) @ [e]\<rparr>)" by simp
    with Some False a b' show ?thesis
      by (simp add: feedB_def main_inv_def split_beta)
  qed
qed

lemma det_ok_mono: "det_ok R ts d \<Longrightarrow> ts \<le> ts' \<Longrightarrow> det_ok R ts' d"
  by (auto simp: det_ok_def)

lemma inv_init: "main_inv (arg_refract args) (main_init args dargs)"
  by (simp add: main_inv_def queues_ok_def main_init_def new_detector_def pair_init_def det_ok_def)

lemma reach_inv:
  assumes "main_reach args dargs s" and "0 \<le> arg_refract args"
  shows "main_inv (arg_refract args) s"
  using assms
proof (induction rule: main_reach.induct)
  case reach_start
  show ?case by (rule inv_init)
next
  case (reach_valueA s v)
  then show ?case by (simp add: main_inv_def)
next
  case (reach_stampA s ts)
  then show ?case by (auto simp: main_inv_def intro: det_ok_mono)
next
  case (reach_valueB s v)
  then show ?case by (simp add: main_inv_def)
next
  case (reach_stampB s ts)
  then show ?case by (auto simp: main_inv_def intro: det_ok_mono)
next
  case (reach_feedA s)
  then show ?case by (simp add: inv_feedA)
next
  case (reach_feedB s)
  then show ?case by (simp add: inv_feedB)
next
  case (reach_pair s a qa b qb)
  then show ?case by (simp add: main_inv_def queues_ok_pair_step)
qed

text \<open>
  In every state the program reaches the refractory test of the pairing loop passes:
  a detector starts a burst only \<^verbatim>\<open>refract\<close> after the end of its last one, and a crossing
  is stamped with a peak time, which is not later than the end of its burst.
\<close>

lemma refractory_guard_passes:
  assumes "main_reach args dargs s" and "0 \<le> arg_refract args"
    and "qA (pairer s) = a # qa" and "qB (pairer s) = b # qb"
  shows "arg_refract args \<le> max (peak_t a) (peak_t b) - last_cross_t (pairer s)"
proof -
  from reach_inv [OF assms(1,2)]
  have "queues_ok (arg_refract args) (det_last_emit_t (detA s)) (det_last_emit_t (detB s)) (pairer s)"
    by (simp add: main_inv_def)
  then show ?thesis by (rule guard_from_queues [OF _ assms(3,4)])
qed

lemma reach_pairing:
  "pairer s = p \<Longrightarrow> main_reach args dargs s
   \<Longrightarrow> main_reach args dargs (s\<lparr>pairer := pairing args p\<rparr>)"
proof (induction args p arbitrary: s rule: pairing.induct)
  case (1 args p)
  show ?case
  proof (cases "qA p")
    case Nil
    then have "pairing args p = p" by (intro pairing_done) simp
    moreover have "s\<lparr>pairer := p\<rparr> = s" using "1.prems"(1) by (cases s) simp
    ultimately show ?thesis using "1.prems"(2) by simp
  next
    case a: (Cons a qa)
    show ?thesis
    proof (cases "qB p")
      case Nil
      then have "pairing args p = p" by (intro pairing_done) simp
      moreover have "s\<lparr>pairer := p\<rparr> = s" using "1.prems"(1) by (cases s) simp
      ultimately show ?thesis using "1.prems"(2) by simp
    next
      case b: (Cons b qb)
      let ?s' = "s\<lparr>pairer := pair_step args a qa b qb p\<rparr>"
      have r: "main_reach args dargs ?s'"
        using main_reach.reach_pair [OF "1.prems"(2), of a qa b qb] a b "1.prems"(1) by simp
      have "main_reach args dargs (?s'\<lparr>pairer := pairing args (pair_step args a qa b qb p)\<rparr>)"
        by (rule "1.IH" [OF a b _ r]) simp
      moreover have "pairing args p = pairing args (pair_step args a qa b qb p)"
        by (rule pairing_cons [OF a b])
      ultimately show ?thesis by simp
    qed
  qed
qed

lemma reach_tick:
  assumes "main_reach args dargs s"
  shows "main_reach args dargs (main_tick args s)"
  unfolding main_tick_def Let_def
  by (rule reach_pairing [OF refl]) (intro main_reach.reach_feedB main_reach.reach_feedA assms)

lemma reach_frameA:
  assumes "main_reach args dargs s" and "rd_last_ts (rdA s) \<le> ts"
  shows "main_reach args dargs (frameA v ts s)"
proof -
  have "main_reach args dargs (s\<lparr>rdA := (rdA s)\<lparr>rd_value := v\<rparr>\<rparr>)"
    by (rule main_reach.reach_valueA [OF assms(1)])
  from main_reach.reach_stampA [OF this, of ts] assms(2) show ?thesis
    by (simp add: frameA_def)
qed

lemma reach_frameB:
  assumes "main_reach args dargs s" and "rd_last_ts (rdB s) \<le> ts"
  shows "main_reach args dargs (frameB v ts s)"
proof -
  have "main_reach args dargs (s\<lparr>rdB := (rdB s)\<lparr>rd_value := v\<rparr>\<rparr>)"
    by (rule main_reach.reach_valueB [OF assms(1)])
  from main_reach.reach_stampB [OF this, of ts] assms(2) show ?thesis
    by (simp add: frameB_def)
qed

lemma feed_keeps_readers:
  "rdA (feedA s) = rdA s" "rdB (feedA s) = rdB s" "rdA (feedB s) = rdA s" "rdB (feedB s) = rdB s"
  by (simp_all add: feedA_def feedB_def split_beta)

lemma frame_readers:
  "rd_last_ts (rdA (frameA v ts s)) = ts" "rdB (frameA v ts s) = rdB s"
  "rd_last_ts (rdB (frameB v ts s)) = ts" "rdA (frameB v ts s) = rdA s"
  by (simp_all add: frameA_def frameB_def)

lemma passage_A_reached: "main_reach spec_args default_det_args passage_A"
  unfolding passage_A_def
  by (intro main_reach.reach_feedA reach_frameA main_reach.reach_start)
     (simp_all add: feed_keeps_readers frame_readers main_init_def)

lemma passage_A_readers:
  "rd_last_ts (rdB passage_A) = 0"
  by (simp add: passage_A_def feed_keeps_readers frame_readers main_init_def)

lemma passage_reached: "main_reach spec_args default_det_args passage"
  unfolding passage_def
  by (intro main_reach.reach_feedB reach_frameB passage_A_reached)
     (simp_all add: feed_keeps_readers frame_readers passage_A_readers)

lemma passage_A_pairer: "pairer passage_A = pair_init\<lparr>qA := [burst_of_A]\<rparr>"
  by (simp add: passage_A_def feedA_def frameA_def det_update_def main_init_def
      new_detector_def default_det_args_def spec_args_def default_args_def burst_of_A_def
      pair_init_def Let_def)

lemma passage_A_detB:
  "detB passage_A = new_detector B 0.07 12 0.60 0.35 1"
  by (simp add: passage_A_def feedA_def frameA_def main_init_def
      default_det_args_def spec_args_def default_args_def split_beta)

lemma passage_pairer: "pairer passage = pair_init\<lparr>qA := [burst_of_A], qB := [burst_of_B]\<rparr>"
  by (simp add: passage_def feedB_def frameB_def det_update_def passage_A_pairer passage_A_detB
      new_detector_def burst_of_B_def pair_init_def Let_def)

section \<open>Properties of the direction logic of rd03e_scope.py\<close>




lemma first_edge_any_hist:
  "emit_dir_edge P hist 100 A scope_init =
     scope_init\<lparr>DIR := dir_init\<lparr>dir_pending := Some A, dir_ts := 100,
                                 dir_rise_ts := (\<lambda>_. None)(A := Some 100)\<rparr>,
                last_emit_ts := (\<lambda>_. 0)(A := 100)\<rparr>"
  by (simp add: emit_dir_edge_def scope_init_def dir_init_def Let_def)

lemma after_first_edge_eq:
  "after_first_edge =
     scope_init\<lparr>DIR := dir_init\<lparr>dir_pending := Some A, dir_ts := 100,
                                 dir_rise_ts := (\<lambda>_. None)(A := Some 100)\<rparr>,
                last_emit_ts := (\<lambda>_. 0)(A := 100)\<rparr>"
  by (simp add: after_first_edge_def first_edge_any_hist)

lemma feat_hist0: "feat (hist0 sd) = (None, None)"
  by (simp add: feat_def hist0_def last_n_def List.map_filter_simps)

lemma after_first_crossing_fields:
  "dir_refract_until (DIR after_first_crossing) = 101.4"
  "dir_pending (DIR after_first_crossing) = None"
  "count_A2B after_first_crossing = 1"
  "count_B2A after_first_crossing = 0"
  "count_total after_first_crossing = 0"
  "count_other after_first_crossing = 1"
  by (simp_all add: after_first_crossing_def after_first_edge_eq emit_dir_edge_def scope_init_def
        dir_init_def Let_def default_params_def count_event_def classify_def feat_hist0
        side_name_def or_zero_def)

section \<open>The guards of the pairing\<close>

text \<open>
  The claim as stated fails for the pairer of rd03e_scope.py: its \<^verbatim>\<open>minsep\<close> separates
  successive direction events, nothing compares the two edges of a pair. Under the
  default settings (\<^verbatim>\<open>minsep\<close> 0.25 s, pairing window 0.8 s) an edge of A at 100 and an
  edge of B at 100.05 are paired and counted as one \<^verbatim>\<open>A2B\<close> event.
\<close>

theorem scope_pairs_close_edges:
  "(100.05 :: real) - 100 < minsep default_params
   \<and> (100.05 :: real) - 100 \<le> pair default_params
   \<and> dir_pending (DIR (emit_dir_edge default_params hist0 100 A scope_init)) = Some A
   \<and> dir_ts (DIR (emit_dir_edge default_params hist0 100 A scope_init)) = 100
   \<and> count_A2B (emit_dir_edge default_params hist0 100.05 B
                   (emit_dir_edge default_params hist0 100 A scope_init)) = 1
   \<and> dir_last (DIR (emit_dir_edge default_params hist0 100.05 B
                        (emit_dir_edge default_params hist0 100 A scope_init))) = Some ''A2B''"
  by (simp add: first_edge_any_hist emit_dir_edge_def scope_init_def
        dir_init_def Let_def default_params_def count_event_def classify_def feat_hist0
        side_name_def or_zero_def)

text \<open>
  Claim C2, as amended, for the guarded pairing loop of rd03e_two_sensor_counter.py. Two
  queue heads whose pairing timestamps lie within the pairing window and differ by less
  than \<^verbatim>\<open>min_dt\<close> are both discarded, with no crossing counted or logged. In every state
  the program reaches (the refractory period not negative), when the head of A has the
  pairing time \<open>T\<close> and the head of B the pairing time \<open>T + 0.5\<close>, with a pairing window
  of 0.8, a \<^verbatim>\<open>min_dt\<close> of 0.1 and the amplitude guard satisfied, the pass of the pairing
  loop consumes both and counts and logs exactly one \<^verbatim>\<open>A->B\<close> crossing.
\<close>

theorem min_dt_guard_and_example:
  "(\<bar>pair_time args a - pair_time args b\<bar> \<le> arg_pair args
      \<and> \<bar>pair_time args a - pair_time args b\<bar> < arg_min_dt args
     \<longrightarrow> pair_step args a qa b qb s = s\<lparr>qA := qa, qB := qb\<rparr>)
   \<and> (main_reach args dargs m \<and> 0 \<le> arg_refract args
        \<and> qA (pairer m) = a # qa \<and> qB (pairer m) = b # qb
        \<and> pair_time args b = pair_time args a + 0.5
        \<and> arg_pair args = 0.8 \<and> arg_min_dt args = 0.1
        \<and> arg_amp_ratio args * peak_amp b \<le> peak_amp a
     \<longrightarrow> pair_step args a qa b qb (pairer m) =
           (pairer m)\<lparr>qA := qa, qB := qb, last_cross_t := max (peak_t a) (peak_t b),
             inbound := inbound (pairer m) + 1,
             crossings := crossings (pairer m) @ [(''A->B'', 0.5)]\<rparr>)"
proof (intro conjI impI)
  assume "\<bar>pair_time args a - pair_time args b\<bar> \<le> arg_pair args
      \<and> \<bar>pair_time args a - pair_time args b\<bar> < arg_min_dt args"
  then show "pair_step args a qa b qb s = s\<lparr>qA := qa, qB := qb\<rparr>"
    using min_dt_discards by blast
next
  assume h: "main_reach args dargs m \<and> 0 \<le> arg_refract args
        \<and> qA (pairer m) = a # qa \<and> qB (pairer m) = b # qb
        \<and> pair_time args b = pair_time args a + 0.5
        \<and> arg_pair args = 0.8 \<and> arg_min_dt args = 0.1
        \<and> arg_amp_ratio args * peak_amp b \<le> peak_amp a"
  then have g: "arg_refract args \<le> max (peak_t a) (peak_t b) - last_cross_t (pairer m)"
    using refractory_guard_passes by blast
  from h have d: "\<bar>pair_time args a - pair_time args b\<bar> = 0.5" by simp
  from h g have "pair_step args a qa b qb (pairer m) =
     (pairer m)\<lparr>qA := qa, qB := qb, last_cross_t := max (peak_t a) (peak_t b),
       inbound := inbound (pairer m) + 1,
       crossings := crossings (pairer m) @ [(''A->B'', \<bar>pair_time args a - pair_time args b\<bar>)]\<rparr>"
    by (intro accept_step) (simp_all add: d)
  then show "pair_step args a qa b qb (pairer m) =
           (pairer m)\<lparr>qA := qa, qB := qb, last_cross_t := max (peak_t a) (peak_t b),
             inbound := inbound (pairer m) + 1,
             crossings := crossings (pairer m) @ [(''A->B'', 0.5)]\<rparr>"
    by (simp only: d)
qed

theorem min_dt_guard_and_example_witness:
  "(\<bar>pair_time spec_args (burst A 100 2) - pair_time spec_args (burst B 100.05 1)\<bar> \<le> arg_pair spec_args
    \<and> \<bar>pair_time spec_args (burst A 100 2) - pair_time spec_args (burst B 100.05 1)\<bar> < arg_min_dt spec_args)
   \<and> pair_step spec_args (burst A 100 2) [] (burst B 100.05 1) []
         (pair_init\<lparr>qA := [burst A 100 2], qB := [burst B 100.05 1]\<rparr>)
       = pair_init\<lparr>qA := [burst A 100 2], qB := [burst B 100.05 1]\<rparr>\<lparr>qA := [], qB := []\<rparr>
   \<and> (main_reach spec_args default_det_args passage \<and> 0 \<le> arg_refract spec_args
        \<and> qA (pairer passage) = burst_of_A # [] \<and> qB (pairer passage) = burst_of_B # []
        \<and> pair_time spec_args burst_of_A = 1001
        \<and> pair_time spec_args burst_of_B = pair_time spec_args burst_of_A + 0.5
        \<and> arg_pair spec_args = 0.8 \<and> arg_min_dt spec_args = 0.1
        \<and> arg_amp_ratio spec_args * peak_amp burst_of_B \<le> peak_amp burst_of_A)
   \<and> inbound (pair_step spec_args burst_of_A [] burst_of_B [] (pairer passage)) = 1
   \<and> outbound (pair_step spec_args burst_of_A [] burst_of_B [] (pairer passage)) = 0
   \<and> crossings (pair_step spec_args burst_of_A [] burst_of_B [] (pairer passage)) = [(''A->B'', 0.5)]
   \<and> qA (pair_step spec_args burst_of_A [] burst_of_B [] (pairer passage)) = []
   \<and> qB (pair_step spec_args burst_of_A [] burst_of_B [] (pairer passage)) = []"
proof -
  have h1: "\<bar>pair_time spec_args (burst A 100 2) - pair_time spec_args (burst B 100.05 1)\<bar> \<le> arg_pair spec_args
    \<and> \<bar>pair_time spec_args (burst A 100 2) - pair_time spec_args (burst B 100.05 1)\<bar> < arg_min_dt spec_args"
    by (simp add: pair_time_burst spec_args_simps)
  have t: "pair_time spec_args burst_of_A = 1001"
    by (simp add: pair_time_def spec_args_simps burst_of_A_def)
  have h2: "main_reach spec_args default_det_args passage \<and> 0 \<le> arg_refract spec_args
        \<and> qA (pairer passage) = burst_of_A # [] \<and> qB (pairer passage) = burst_of_B # []
        \<and> pair_time spec_args burst_of_B = pair_time spec_args burst_of_A + 0.5
        \<and> arg_pair spec_args = 0.8 \<and> arg_min_dt spec_args = 0.1
        \<and> arg_amp_ratio spec_args * peak_amp burst_of_B \<le> peak_amp burst_of_A"
    by (simp add: passage_reached passage_pairer pair_time_def spec_args_simps
        burst_of_A_def burst_of_B_def)
  from h1 min_dt_guard_and_example
          [of spec_args "burst A 100 2" "burst B 100.05 1" "[]" "[]"
              "pair_init\<lparr>qA := [burst A 100 2], qB := [burst B 100.05 1]\<rparr>"]
  have c1: "pair_step spec_args (burst A 100 2) [] (burst B 100.05 1) []
         (pair_init\<lparr>qA := [burst A 100 2], qB := [burst B 100.05 1]\<rparr>)
       = pair_init\<lparr>qA := [burst A 100 2], qB := [burst B 100.05 1]\<rparr>\<lparr>qA := [], qB := []\<rparr>"
    by blast
  from h2 min_dt_guard_and_example
          [of spec_args burst_of_A burst_of_B "[]" "[]" _ default_det_args passage]
  have "pair_step spec_args burst_of_A [] burst_of_B [] (pairer passage) =
           (pairer passage)\<lparr>qA := [], qB := [],
             last_cross_t := max (peak_t burst_of_A) (peak_t burst_of_B),
             inbound := inbound (pairer passage) + 1,
             crossings := crossings (pairer passage) @ [(''A->B'', 0.5)]\<rparr>"
    by blast
  then have c2: "inbound (pair_step spec_args burst_of_A [] burst_of_B [] (pairer passage)) = 1
   \<and> outbound (pair_step spec_args burst_of_A [] burst_of_B [] (pairer passage)) = 0
   \<and> crossings (pair_step spec_args burst_of_A [] burst_of_B [] (pairer passage)) = [(''A->B'', 0.5)]
   \<and> qA (pair_step spec_args burst_of_A [] burst_of_B [] (pairer passage)) = []
   \<and> qB (pair_step spec_args burst_of_A [] burst_of_B [] (pairer passage)) = []"
    by (simp add: passage_pairer pair_init_def)
  from h1 c1 h2 t c2 show ?thesis by blast
qed

text \<open>
  The claim as stated fails for the pairer of rd03e_scope.py, which has no amplitude
  guard: with a peak moving energy of 1 on the leading side A and of 100 on the lagging
  side B, an edge of A at 100 and an edge of B at 100.4 are paired and counted as one
  \<^verbatim>\<open>A2B\<close> event.
\<close>

theorem scope_counts_weak_lead:
  "fst (feat (hist_lag_louder A)) = Some 1
   \<and> fst (feat (hist_lag_louder B)) = Some 100
   \<and> \<not> (1 * 100 \<le> (1 :: real))
   \<and> count_A2B (emit_dir_edge default_params hist_lag_louder 100.4 B
                   (emit_dir_edge default_params hist_lag_louder 100 A scope_init)) = 1
   \<and> dir_last (DIR (emit_dir_edge default_params hist_lag_louder 100.4 B
                        (emit_dir_edge default_params hist_lag_louder 100 A scope_init)))
       = Some ''A2B''"
proof -
  have f: "feat (hist_lag_louder A) = (Some 1, None)" "feat (hist_lag_louder B) = (Some 100, None)"
    by (simp_all add: feat_def hist_lag_louder_def last_n_def samples_def lookback_s_def
        List.map_filter_simps)
  show ?thesis
    by (simp add: f first_edge_any_hist emit_dir_edge_def scope_init_def
        dir_init_def Let_def default_params_def count_event_def classify_def
        side_name_def or_zero_def)
qed

text \<open>
  Claim C3, as amended, for the guarded pairing loop of rd03e_two_sensor_counter.py. For
  two queue heads within the pairing window the lead is the head with the earlier
  pairing time, B when the two are equal. When the lead's peak amplitude is less than
  \<^verbatim>\<open>amp_ratio\<close> times the lag's, both heads are discarded and nothing is counted or logged;
  and a pass that counts or logs a crossing had a lead whose peak amplitude is at least
  \<^verbatim>\<open>amp_ratio\<close> times the lag's.
\<close>

theorem amp_guard:
  assumes "\<bar>pair_time args a - pair_time args b\<bar> \<le> arg_pair args"
  shows "(pair_time args a < pair_time args b \<and> peak_amp a < arg_amp_ratio args * peak_amp b
            \<longrightarrow> pair_step args a qa b qb s = s\<lparr>qA := qa, qB := qb\<rparr>)
         \<and> (\<not> pair_time args a < pair_time args b \<and> peak_amp b < arg_amp_ratio args * peak_amp a
            \<longrightarrow> pair_step args a qa b qb s = s\<lparr>qA := qa, qB := qb\<rparr>)
         \<and> (crossings (pair_step args a qa b qb s) \<noteq> crossings s
              \<or> inbound (pair_step args a qa b qb s) \<noteq> inbound s
              \<or> outbound (pair_step args a qa b qb s) \<noteq> outbound s
             \<longrightarrow> (if pair_time args a < pair_time args b
                   then arg_amp_ratio args * peak_amp b \<le> peak_amp a
                   else arg_amp_ratio args * peak_amp a \<le> peak_amp b))"
proof (cases "amp_ok args a b")
  case True
  then show ?thesis by (auto simp: amp_ok_def)
next
  case False
  with assms have "pair_step args a qa b qb s = s\<lparr>qA := qa, qB := qb\<rparr>"
    by (simp add: pair_step_def Let_def)
  then show ?thesis by simp
qed

theorem amp_guard_witness:
  "\<bar>pair_time spec_args (burst A 100 1) - pair_time spec_args (burst B 100.5 2)\<bar> \<le> arg_pair spec_args
   \<and> pair_time spec_args (burst A 100 1) < pair_time spec_args (burst B 100.5 2)
   \<and> peak_amp (burst A 100 1) < arg_amp_ratio spec_args * peak_amp (burst B 100.5 2)
   \<and> pair_step spec_args (burst A 100 1) [] (burst B 100.5 2) []
         (pair_init\<lparr>qA := [burst A 100 1], qB := [burst B 100.5 2]\<rparr>)
       = pair_init\<lparr>qA := [burst A 100 1], qB := [burst B 100.5 2]\<rparr>\<lparr>qA := [], qB := []\<rparr>
   \<and> \<bar>pair_time default_args (burst A 100.5 10) - pair_time default_args (burst B 100 11)\<bar>
        \<le> arg_pair default_args
   \<and> \<not> pair_time default_args (burst A 100.5 10) < pair_time default_args (burst B 100 11)
   \<and> peak_amp (burst B 100 11) < arg_amp_ratio default_args * peak_amp (burst A 100.5 10)
   \<and> pair_step default_args (burst A 100.5 10) [] (burst B 100 11) []
         (pair_init\<lparr>qA := [burst A 100.5 10], qB := [burst B 100 11]\<rparr>)
       = pair_init\<lparr>qA := [burst A 100.5 10], qB := [burst B 100 11]\<rparr>\<lparr>qA := [], qB := []\<rparr>
   \<and> \<bar>pair_time default_args (burst A 100.5 10) - pair_time default_args (burst B 100 12)\<bar>
        \<le> arg_pair default_args
   \<and> outbound (pair_step default_args (burst A 100.5 10) [] (burst B 100 12) [] pair_init)
         \<noteq> outbound pair_init
   \<and> arg_amp_ratio default_args * peak_amp (burst A 100.5 10) \<le> peak_amp (burst B 100 12)"
proof -
  have w: "\<bar>pair_time spec_args (burst A 100 1) - pair_time spec_args (burst B 100.5 2)\<bar> \<le> arg_pair spec_args"
    by (simp add: pair_time_burst spec_args_simps)
  have n: "pair_time spec_args (burst A 100 1) < pair_time spec_args (burst B 100.5 2)
     \<and> peak_amp (burst A 100 1) < arg_amp_ratio spec_args * peak_amp (burst B 100.5 2)"
    by (simp add: pair_time_burst spec_args_simps burst_simps)
  from amp_guard [OF w, of "[]" "[]" "pair_init\<lparr>qA := [burst A 100 1], qB := [burst B 100.5 2]\<rparr>"] n
  have 1: "pair_step spec_args (burst A 100 1) [] (burst B 100.5 2) []
         (pair_init\<lparr>qA := [burst A 100 1], qB := [burst B 100.5 2]\<rparr>)
       = pair_init\<lparr>qA := [burst A 100 1], qB := [burst B 100.5 2]\<rparr>\<lparr>qA := [], qB := []\<rparr>"
    by blast
  have w2: "\<bar>pair_time default_args (burst A 100.5 10) - pair_time default_args (burst B 100 11)\<bar>
        \<le> arg_pair default_args"
    by (simp add: pair_time_burst default_args_def)
  have n2: "\<not> pair_time default_args (burst A 100.5 10) < pair_time default_args (burst B 100 11)
     \<and> peak_amp (burst B 100 11) < arg_amp_ratio default_args * peak_amp (burst A 100.5 10)"
    by (simp add: pair_time_burst default_args_def burst_simps)
  from amp_guard [OF w2, of "[]" "[]" "pair_init\<lparr>qA := [burst A 100.5 10], qB := [burst B 100 11]\<rparr>"] n2
  have 2: "pair_step default_args (burst A 100.5 10) [] (burst B 100 11) []
         (pair_init\<lparr>qA := [burst A 100.5 10], qB := [burst B 100 11]\<rparr>)
       = pair_init\<lparr>qA := [burst A 100.5 10], qB := [burst B 100 11]\<rparr>\<lparr>qA := [], qB := []\<rparr>"
    by blast
  have w3: "\<bar>pair_time default_args (burst A 100.5 10) - pair_time default_args (burst B 100 12)\<bar>
        \<le> arg_pair default_args"
    by (simp add: pair_time_burst default_args_def)
  have c: "outbound (pair_step default_args (burst A 100.5 10) [] (burst B 100 12) [] pair_init)
         \<noteq> outbound pair_init"
    by (simp add: pair_step_def amp_ok_def pair_time_burst default_args_def burst_simps pair_init_def)
  have l: "\<not> pair_time default_args (burst A 100.5 10) < pair_time default_args (burst B 100 12)"
    by (simp add: pair_time_burst)
  from amp_guard [OF w3, of "[]" "[]" pair_init] c l
  have 3: "arg_amp_ratio default_args * peak_amp (burst A 100.5 10) \<le> peak_amp (burst B 100 12)"
    by (simp only: if_False) blast
  from w n 1 w2 n2 2 w3 c 3 show ?thesis by blast
qed


section \<open>Properties of the counters\<close>

lemma count_event_counts:
  "((count_A2B (count_event e S) = count_A2B S + 1 \<and> count_B2A (count_event e S) = count_B2A S)
    \<or> (count_A2B (count_event e S) = count_A2B S \<and> count_B2A (count_event e S) = count_B2A S + 1))
   \<and> ((count_total (count_event e S) = count_total S + 1
         \<and> count_other (count_event e S) = count_other S)
       \<or> (count_total (count_event e S) = count_total S
           \<and> count_other (count_event e S) = count_other S + 1))"
  by (simp add: count_event_def Let_def)

lemma counts_DIR [simp]: "counts (S\<lparr>DIR := D\<rparr>) = counts S"
  by (simp add: counts_def)

lemma counts_last_emit [simp]: "counts (S\<lparr>last_emit_ts := f\<rparr>) = counts S"
  by (simp add: counts_def)

lemma counts_count_event_cong:
  "counts S = counts S' \<Longrightarrow> counts (count_event e S) = counts (count_event e S')"
  by (simp add: counts_def count_event_def Let_def)

lemma emit_counts:
  "counts (emit_dir_edge P hist now sd S) = counts S
   \<or> (\<exists>e. counts (emit_dir_edge P hist now sd S) = counts (count_event e S))"
proof -
  let ?S1 = "S\<lparr>last_emit_ts := (last_emit_ts S)(sd := now)\<rparr>"
  have c: "\<And>e D. counts (count_event e (?S1\<lparr>DIR := D\<rparr>)) = counts (count_event e S)"
    by (rule counts_count_event_cong) simp
  show ?thesis
    unfolding emit_dir_edge_def Let_def
    by (auto simp: c split: option.split)
qed

lemma balance_event:
  "count_A2B S + count_B2A S = count_total S + count_other S \<Longrightarrow>
   count_A2B (count_event e S) + count_B2A (count_event e S)
     = count_total (count_event e S) + count_other (count_event e S)"
  by (simp add: count_event_def Let_def)

lemma balanced_counts: "counts S = counts S' \<Longrightarrow> balanced S = balanced S'"
  by (auto simp: counts_def balanced_def)

lemma balanced_emit: "balanced S \<Longrightarrow> balanced (emit_dir_edge P hist now sd S)"
proof -
  assume b: "balanced S"
  from emit_counts [of P hist now sd S] show ?thesis
  proof
    assume "counts (emit_dir_edge P hist now sd S) = counts S"
    with b show ?thesis using balanced_counts by blast
  next
    assume "\<exists>e. counts (emit_dir_edge P hist now sd S) = counts (count_event e S)"
    then obtain e where e: "counts (emit_dir_edge P hist now sd S) = counts (count_event e S)" ..
    from b have "balanced (count_event e S)"
      unfolding balanced_def by (rule balance_event)
    with e show ?thesis using balanced_counts by blast
  qed
qed

lemma reachable_balanced: "reachable S \<Longrightarrow> balanced S"
proof (induction rule: reachable.induct)
  case reach_init
  show ?case by (simp add: balanced_def scope_init_def)
next
  case (reach_edge S P hist now sd)
  then show ?case by (simp add: balanced_emit)
next
  case (reach_reset S)
  show ?case by (simp add: balanced_def counts_reset_def)
qed

text \<open>
  Claim C10. In every state reachable from the initial one by edge notifications and
  resets, the two direction counters add up to the two class counters. An edge
  notification either leaves the four counters as they are or counts one event, which
  adds one to exactly one direction counter and to exactly one class counter; a reset
  sets all four to zero.
\<close>

theorem counters_balanced:
  assumes "reachable S"
  shows "count_A2B S + count_B2A S = count_total S + count_other S
         \<and> (counts (emit_dir_edge P hist now sd S) = counts S
            \<or> (\<exists>e. counts (emit_dir_edge P hist now sd S) = counts (count_event e S)))
         \<and> ((count_A2B (count_event e S) = count_A2B S + 1
               \<and> count_B2A (count_event e S) = count_B2A S)
             \<or> (count_A2B (count_event e S) = count_A2B S
                 \<and> count_B2A (count_event e S) = count_B2A S + 1))
         \<and> ((count_total (count_event e S) = count_total S + 1
               \<and> count_other (count_event e S) = count_other S)
             \<or> (count_total (count_event e S) = count_total S
                 \<and> count_other (count_event e S) = count_other S + 1))
         \<and> counts (counts_reset S) = (0, 0, 0, 0)"
  using reachable_balanced [OF assms] emit_counts [of P hist now sd S]
    count_event_counts [of e S]
  by (simp add: balanced_def counts_def counts_reset_def)

theorem counters_balanced_witness:
  "reachable after_first_crossing
   \<and> count_A2B after_first_crossing + count_B2A after_first_crossing
       = count_total after_first_crossing + count_other after_first_crossing
   \<and> count_A2B after_first_crossing = 1 \<and> count_other after_first_crossing = 1
   \<and> counts (counts_reset after_first_crossing) = (0, 0, 0, 0)"
proof -
  have "reachable after_first_edge"
    unfolding after_first_edge_def by (rule reach_edge) (rule reach_init)
  then have r: "reachable after_first_crossing"
    unfolding after_first_crossing_def by (rule reach_edge)
  from counters_balanced [OF r]
  have b: "count_A2B after_first_crossing + count_B2A after_first_crossing
       = count_total after_first_crossing + count_other after_first_crossing
    \<and> counts (counts_reset after_first_crossing) = (0, 0, 0, 0)"
    by blast
  from b r show ?thesis
    by (simp add: after_first_crossing_fields)
qed

section \<open>Properties of the classification\<close>

lemma samples_eq: "samples = 5"
  by (simp add: samples_def lookback_s_def)

lemma feat_hist_peak: "feat (hist_peak v sd) = (Some v, None)"
  by (simp add: feat_def hist_peak_def last_n_def samples_eq List.map_filter_simps)

lemma trigger_on_from_100_to_100_4:
  "update_trigger moving_level False 100 50 reader_init
     = (reader_init\<lparr>last_valid_ts := 100, trig_on := True, last_me := 50\<rparr>, Some True, True)
   \<and> fst (snd (update_trigger moving_level False 100.4 50 risen_at_100)) = Some True"
proof -
  have 1: "update_trigger moving_level False 100 50 reader_init
     = (reader_init\<lparr>last_valid_ts := 100, trig_on := True, last_me := 50\<rparr>, Some True, True)"
    by (simp add: update_trigger_def learn_state_def mark_valid_def active_sample_def
        moving_logic_def still_logic_def st_trig_def st_hys_def st_hold_def
        moving_level_def either_level_def reader_init_def Let_def)
  have 2: "fst (snd (update_trigger moving_level False 100.4 50 risen_at_100)) = Some True"
    unfolding risen_at_100_def 1
    by (simp add: update_trigger_def learn_state_def mark_valid_def active_sample_def
        moving_logic_def still_logic_def st_trig_def st_hys_def st_hold_def
        moving_level_def either_level_def reader_init_def Let_def)
  from 1 2 show ?thesis by simp
qed

text \<open>
  The claim as stated fails in two ways. For a time of flight of at most a millisecond:
  with a gap of 56 cm and edges half a millisecond apart the quotient is 1120 m/s and
  the peak energy and the duration suffice, but the code computes no speed and the
  class is \<^verbatim>\<open>other\<close>. And for the dwell: with hold times of 0.05 s the trigger of A rises
  at 100 and is still on at 100.4, a dwell of 0.4 s against a least duration of 0.10 s,
  the speed is 1.4 m/s and the peak energy 80, but the duration the code compares is
  the hold time of 0.05 s and the class is \<^verbatim>\<open>other\<close>.
\<close>

theorem fast_crossing_not_car:
  "\<bar>100.0005 - 100 :: real\<bar> = 0.0005
   \<and> veh_speed_min_mps gap56 \<le> (sensor_gap_cm gap56 / 100) / \<bar>100.0005 - 100\<bar>
   \<and> veh_peak_me_min gap56
       \<le> max (or_zero (fst (feat (hist_peak 80 A)))) (or_zero (fst (feat (hist_peak 80 B))))
   \<and> veh_min_duration gap56 \<le> max (holdA gap56) (holdB gap56)
   \<and> ev_speed_mps (classify gap56 (hist_peak 80) (Some 100) (Some 100.0005) ''A2B'' 100.0005) = None
   \<and> ev_class (classify gap56 (hist_peak 80) (Some 100) (Some 100.0005) ''A2B'' 100.0005) = ''other''
   \<and> snd (snd (update_trigger moving_level False 100 50 reader_init))
   \<and> fst (snd (update_trigger moving_level False 100.4 50 risen_at_100)) = Some True
   \<and> mov_hold moving_level = holdA short_hold
   \<and> veh_min_duration short_hold \<le> 100.4 - 100
   \<and> ev_speed_mps (classify short_hold (hist_peak 80) (Some 100) (Some 100.4) ''A2B'' 100.4) = Some 1.4
   \<and> veh_speed_min_mps short_hold \<le> 1.4
   \<and> veh_peak_me_min short_hold
       \<le> max (or_zero (fst (feat (hist_peak 80 A)))) (or_zero (fst (feat (hist_peak 80 B))))
   \<and> ev_duration_s (classify short_hold (hist_peak 80) (Some 100) (Some 100.4) ''A2B'' 100.4) = 0.05
   \<and> ev_class (classify short_hold (hist_peak 80) (Some 100) (Some 100.4) ''A2B'' 100.4) = ''other''"
proof -
  have 1: "\<bar>100.0005 - 100 :: real\<bar> = 0.0005
   \<and> veh_speed_min_mps gap56 \<le> (sensor_gap_cm gap56 / 100) / \<bar>100.0005 - 100\<bar>
   \<and> veh_peak_me_min gap56
       \<le> max (or_zero (fst (feat (hist_peak 80 A)))) (or_zero (fst (feat (hist_peak 80 B))))
   \<and> veh_min_duration gap56 \<le> max (holdA gap56) (holdB gap56)
   \<and> ev_speed_mps (classify gap56 (hist_peak 80) (Some 100) (Some 100.0005) ''A2B'' 100.0005) = None
   \<and> ev_class (classify gap56 (hist_peak 80) (Some 100) (Some 100.0005) ''A2B'' 100.0005) = ''other''"
    by (simp add: classify_def Let_def gap56_def default_params_def feat_hist_peak or_zero_def)
  have 2: "snd (snd (update_trigger moving_level False 100 50 reader_init))
   \<and> fst (snd (update_trigger moving_level False 100.4 50 risen_at_100)) = Some True"
    using trigger_on_from_100_to_100_4 by simp
  have 3: "mov_hold moving_level = holdA short_hold
   \<and> veh_min_duration short_hold \<le> 100.4 - 100
   \<and> veh_speed_min_mps short_hold \<le> 1.4
   \<and> veh_peak_me_min short_hold
       \<le> max (or_zero (fst (feat (hist_peak 80 A)))) (or_zero (fst (feat (hist_peak 80 B))))"
    by (simp add: moving_level_def either_level_def short_hold_def gap56_def default_params_def
        feat_hist_peak or_zero_def)
  have 4: "ev_speed_mps (classify short_hold (hist_peak 80) (Some 100) (Some 100.4) ''A2B'' 100.4) = Some 1.4
   \<and> ev_duration_s (classify short_hold (hist_peak 80) (Some 100) (Some 100.4) ''A2B'' 100.4) = 0.05
   \<and> ev_class (classify short_hold (hist_peak 80) (Some 100) (Some 100.4) ''A2B'' 100.4) = ''other''"
    by (simp add: classify_def Let_def short_hold_def gap56_def default_params_def
        feat_hist_peak or_zero_def)
  from 1 2 3 4 show ?thesis by simp
qed

text \<open>
  Claim C6, as amended. When both rise timestamps are present and non-zero and they lie
  more than a millisecond apart, the classification computes \<open>dt\<close> as their absolute
  difference and the speed as the sensor gap (in metres) divided by \<open>dt\<close>; when a rise
  timestamp is missing or zero, or the two lie at most a millisecond apart, it computes
  no speed, and the speed counts as zero in the comparison. The duration is the larger
  of the two configured hold times, whatever the triggers did. The class is \<^verbatim>\<open>car\<close>
  exactly when the speed is at least \<^verbatim>\<open>veh_speed_min_mps\<close>, the larger of the two channels'
  peak moving energies (a missing peak counting as zero) is at least \<^verbatim>\<open>veh_peak_me_min\<close>,
  and the duration is at least \<^verbatim>\<open>veh_min_duration\<close>; otherwise the class is \<^verbatim>\<open>other\<close>.
\<close>

theorem classify_speed_and_class:
  "(ra = Some a \<and> rb = Some b \<and> a \<noteq> 0 \<and> b \<noteq> 0 \<and> 1 / 1000 < \<bar>b - a\<bar> \<longrightarrow>
      ev_dt (classify P hist ra rb evt now) = Some \<bar>b - a\<bar>
      \<and> ev_speed_mps (classify P hist ra rb evt now)
          = Some ((sensor_gap_cm P / 100) / \<bar>b - a\<bar>)
      \<and> (ev_class (classify P hist ra rb evt now) = ''car'' \<longleftrightarrow>
           veh_speed_min_mps P \<le> (sensor_gap_cm P / 100) / \<bar>b - a\<bar>
           \<and> veh_peak_me_min P
               \<le> max (or_zero (fst (feat (hist A)))) (or_zero (fst (feat (hist B))))
           \<and> veh_min_duration P \<le> max (holdA P) (holdB P)))
   \<and> (ra = None \<or> rb = None \<or> ra = Some 0 \<or> rb = Some 0
       \<or> (ra = Some a \<and> rb = Some b \<and> \<bar>b - a\<bar> \<le> 1 / 1000) \<longrightarrow>
      ev_speed_mps (classify P hist ra rb evt now) = None
      \<and> (ev_class (classify P hist ra rb evt now) = ''car'' \<longleftrightarrow>
           veh_speed_min_mps P \<le> 0
           \<and> veh_peak_me_min P
               \<le> max (or_zero (fst (feat (hist A)))) (or_zero (fst (feat (hist B))))
           \<and> veh_min_duration P \<le> max (holdA P) (holdB P)))
   \<and> ev_duration_s (classify P hist ra rb evt now) = max (holdA P) (holdB P)
   \<and> (ev_class (classify P hist ra rb evt now) \<noteq> ''car'' \<longrightarrow>
        ev_class (classify P hist ra rb evt now) = ''other'')"
proof -
  have 1: "ev_dt (classify P hist ra rb evt now) = Some \<bar>b - a\<bar>
      \<and> ev_speed_mps (classify P hist ra rb evt now)
          = Some ((sensor_gap_cm P / 100) / \<bar>b - a\<bar>)
      \<and> (ev_class (classify P hist ra rb evt now) = ''car'' \<longleftrightarrow>
           veh_speed_min_mps P \<le> (sensor_gap_cm P / 100) / \<bar>b - a\<bar>
           \<and> veh_peak_me_min P
               \<le> max (or_zero (fst (feat (hist A)))) (or_zero (fst (feat (hist B))))
           \<and> veh_min_duration P \<le> max (holdA P) (holdB P))"
    if h: "ra = Some a \<and> rb = Some b \<and> a \<noteq> 0 \<and> b \<noteq> 0 \<and> 1 / 1000 < \<bar>b - a\<bar>"
  proof -
    from h have ne: "b \<noteq> a" by auto
    then have d: "\<bar>b - a\<bar> \<noteq> 0" by simp
    show ?thesis
      using h ne d by (simp add: classify_def Let_def split_beta or_zero_def)
  qed
  have 2: "ev_speed_mps (classify P hist ra rb evt now) = None
      \<and> (ev_class (classify P hist ra rb evt now) = ''car'' \<longleftrightarrow>
           veh_speed_min_mps P \<le> 0
           \<and> veh_peak_me_min P
               \<le> max (or_zero (fst (feat (hist A)))) (or_zero (fst (feat (hist B))))
           \<and> veh_min_duration P \<le> max (holdA P) (holdB P))"
    if h: "ra = None \<or> rb = None \<or> ra = Some 0 \<or> rb = Some 0
       \<or> (ra = Some a \<and> rb = Some b \<and> \<bar>b - a\<bar> \<le> 1 / 1000)"
  proof -
    have s: "ev_speed_mps (classify P hist ra rb evt now) = None"
      using h by (auto simp: classify_def Let_def split_beta split: option.split)
    have c: "ev_class (classify P hist ra rb evt now) = ''car'' \<longleftrightarrow>
           veh_speed_min_mps P \<le> or_zero (ev_speed_mps (classify P hist ra rb evt now))
           \<and> veh_peak_me_min P
               \<le> max (or_zero (fst (feat (hist A)))) (or_zero (fst (feat (hist B))))
           \<and> veh_min_duration P \<le> max (holdA P) (holdB P)"
      by (simp add: classify_def Let_def split_beta)
    from s c show ?thesis by (simp add: or_zero_def)
  qed
  have 3: "ev_duration_s (classify P hist ra rb evt now) = max (holdA P) (holdB P)
   \<and> (ev_class (classify P hist ra rb evt now) \<noteq> ''car'' \<longrightarrow>
        ev_class (classify P hist ra rb evt now) = ''other'')"
    by (simp add: classify_def Let_def split_beta)
  from 1 2 3 show ?thesis by blast
qed

theorem classify_speed_and_class_witness:
  "Some 100 = Some (100 :: real) \<and> (100 :: real) \<noteq> 0 \<and> (100.4 :: real) \<noteq> 0
   \<and> 1 / 1000 < \<bar>100.4 - 100 :: real\<bar>
   \<and> ev_speed_mps (classify gap56 (hist_peak 80) (Some 100) (Some 100.4) ''A2B'' 100.4) = Some 1.4
   \<and> ev_class (classify gap56 (hist_peak 80) (Some 100) (Some 100.4) ''A2B'' 100.4) = ''car''
   \<and> ev_class (classify gap56 (hist_peak 30) (Some 100) (Some 100.4) ''A2B'' 100.4) = ''other''
   \<and> \<bar>100.0005 - 100 :: real\<bar> \<le> 1 / 1000
   \<and> ev_speed_mps (classify gap56 (hist_peak 80) (Some 100) (Some 100.0005) ''A2B'' 100.0005) = None
   \<and> ev_class (classify gap56 (hist_peak 80) (Some 100) (Some 100.0005) ''A2B'' 100.0005) = ''other''
   \<and> ev_speed_mps (classify gap56 (hist_peak 80) None (Some 100) ''A2B'' 100) = None
   \<and> ev_duration_s (classify short_hold (hist_peak 80) (Some 100) (Some 100.4) ''A2B'' 100.4) = 0.05
   \<and> ev_class (classify short_hold (hist_peak 80) (Some 100) (Some 100.4) ''A2B'' 100.4) = ''other''"
proof -
  have h: "1 / 1000 < \<bar>100.4 - 100 :: real\<bar>" by simp
  have n: "(100 :: real) \<noteq> 0" "(100.4 :: real) \<noteq> 0" by simp_all
  have k: "\<bar>100.0005 - 100 :: real\<bar> \<le> 1 / 1000" by simp
  from classify_speed_and_class [of "Some 100" 100 "Some 100.4" "100.4" gap56 "hist_peak 80" "''A2B''" "100.4"] h n
  have 1: "ev_speed_mps (classify gap56 (hist_peak 80) (Some 100) (Some 100.4) ''A2B'' 100.4) = Some 1.4
     \<and> ev_class (classify gap56 (hist_peak 80) (Some 100) (Some 100.4) ''A2B'' 100.4) = ''car''"
    by (simp add: gap56_def default_params_def feat_hist_peak or_zero_def)
  from classify_speed_and_class [of "Some 100" 100 "Some 100.4" "100.4" gap56 "hist_peak 30" "''A2B''" "100.4"] h n
  have 2: "ev_class (classify gap56 (hist_peak 30) (Some 100) (Some 100.4) ''A2B'' 100.4) = ''other''"
    by (simp add: gap56_def default_params_def feat_hist_peak or_zero_def)
  from classify_speed_and_class [of "Some 100" 100 "Some 100.0005" "100.0005" gap56 "hist_peak 80" "''A2B''" "100.0005"] k
  have 3: "ev_speed_mps (classify gap56 (hist_peak 80) (Some 100) (Some 100.0005) ''A2B'' 100.0005) = None
     \<and> ev_class (classify gap56 (hist_peak 80) (Some 100) (Some 100.0005) ''A2B'' 100.0005) = ''other''"
    by (simp add: gap56_def default_params_def feat_hist_peak or_zero_def)
  from classify_speed_and_class [of None 0 "Some 100" 100 gap56 "hist_peak 80" "''A2B''" 100]
  have 4: "ev_speed_mps (classify gap56 (hist_peak 80) None (Some 100) ''A2B'' 100) = None"
    by simp
  from classify_speed_and_class [of "Some 100" 100 "Some 100.4" "100.4" short_hold "hist_peak 80" "''A2B''" "100.4"] h n
  have 5: "ev_duration_s (classify short_hold (hist_peak 80) (Some 100) (Some 100.4) ''A2B'' 100.4) = 0.05
     \<and> ev_class (classify short_hold (hist_peak 80) (Some 100) (Some 100.4) ''A2B'' 100.4) = ''other''"
    by (simp add: short_hold_def gap56_def default_params_def feat_hist_peak or_zero_def)
  from h n k 1 2 3 4 5 show ?thesis by simp
qed
section \<open>Properties of the trigger\<close>

lemma learn_state_trig_on: "trig_on (learn_state P me rs) = trig_on rs"
  by (simp add: learn_state_def update_me_stats_def Let_def split: option.split)

lemma still_only_rise:
  "update_trigger either_level False 100 10 reader_init
     = (reader_init\<lparr>last_valid_ts := 100, trig_on := True, last_me := 10\<rparr>, Some True, False)"
  by (simp add: update_trigger_def learn_state_def mark_valid_def active_sample_def
      moving_logic_def still_logic_def st_trig_def st_hys_def st_hold_def
      either_level_def reader_init_def Let_def)

lemma moving_rise:
  "update_trigger either_level False 100 50 reader_init
     = (reader_init\<lparr>last_valid_ts := 100, trig_on := True, last_me := 50\<rparr>, Some True, True)"
  by (simp add: update_trigger_def learn_state_def mark_valid_def active_sample_def
      moving_logic_def still_logic_def st_trig_def st_hys_def st_hold_def
      either_level_def reader_init_def Let_def)

text \<open>
  Claim C8. \<^verbatim>\<open>_update_trigger\<close> calls \<^verbatim>\<open>_emit_dir_edge\<close> only on a rising edge (the trigger
  was off and is switched on) at which the moving-energy logic itself is on; when the
  moving-energy logic is off, no edge is forwarded, also when the still-energy logic
  switches the trigger on.
\<close>

theorem edge_needs_moving_logic:
  "(snd (snd (update_trigger P borrowed now me rs)) \<longrightarrow>
      \<not> borrowed \<and> \<not> trig_on rs
      \<and> fst (snd (update_trigger P borrowed now me rs)) = Some True
      \<and> moving_logic P (mark_valid P now me (learn_state P me rs)) now me (trig_on rs))
   \<and> (\<not> moving_logic P (mark_valid P now me (learn_state P me rs)) now me (trig_on rs) \<longrightarrow>
        \<not> snd (snd (update_trigger P borrowed now me rs)))"
  by (auto simp: update_trigger_def Let_def learn_state_trig_on)

theorem edge_needs_moving_logic_witness:
  "snd (snd (update_trigger either_level False 100 50 reader_init))
   \<and> moving_logic either_level (mark_valid either_level 100 50 (learn_state either_level 50 reader_init))
        100 50 (trig_on reader_init)
   \<and> \<not> moving_logic either_level
          (mark_valid either_level 100 10 (learn_state either_level 10 reader_init))
          100 10 (trig_on reader_init)
   \<and> \<not> trig_on reader_init
   \<and> fst (snd (update_trigger either_level False 100 10 reader_init)) = Some True
   \<and> \<not> snd (snd (update_trigger either_level False 100 10 reader_init))"
proof -
  have e: "snd (snd (update_trigger either_level False 100 50 reader_init))"
    by (simp add: moving_rise)
  with edge_needs_moving_logic [of either_level False 100 50 reader_init]
  have m: "moving_logic either_level
      (mark_valid either_level 100 50 (learn_state either_level 50 reader_init))
        100 50 (trig_on reader_init)"
    by blast
  have n: "\<not> moving_logic either_level
          (mark_valid either_level 100 10 (learn_state either_level 10 reader_init))
          100 10 (trig_on reader_init)"
    by (simp add: moving_logic_def either_level_def reader_init_def Let_def)
  with edge_needs_moving_logic [of either_level False 100 10 reader_init]
  have q: "\<not> snd (snd (update_trigger either_level False 100 10 reader_init))"
    by blast
  have r: "\<not> trig_on reader_init
     \<and> fst (snd (update_trigger either_level False 100 10 reader_init)) = Some True"
    by (simp add: still_only_rise) (simp add: reader_init_def)
  from e m n q r show ?thesis by blast
qed

section \<open>Properties of the baseline update\<close>










lemma strong_report_moves_distance:
  "s_move_dist (eff_smooth (on_report 0.5 5 (weak_report\<lparr>move_energy := 50\<rparr>) smooth0)) = Some 135"
  by (simp add: on_report_def smooth_update_def weak_report_def smooth0_def py_int_def)
section \<open>Properties of the parameter patches\<close>

lemma state_post_Cons:
  "state_post ((k, v) # body) S = state_post body (if k \<in> set PUB_KEYS then S(k \<mapsto> v) else S)"
  by (simp add: state_post_def)

lemma state_post_Nil: "state_post [] S = S"
  by (simp add: state_post_def)

lemma state_post_absent:
  "k \<notin> fst ` set body \<Longrightarrow> state_post body S k = S k"
proof (induction body arbitrary: S)
  case Nil
  show ?case by (simp add: state_post_Nil)
next
  case (Cons x body)
  obtain k' v' where x: "x = (k', v')" by (cases x)
  with Cons.prems have "k \<noteq> k'" and "k \<notin> fst ` set body" by auto
  with Cons.IH x show ?case by (simp add: state_post_Cons)
qed

lemma state_post_private:
  "k \<notin> set PUB_KEYS \<Longrightarrow> state_post body S k = S k"
proof (induction body arbitrary: S)
  case Nil
  show ?case by (simp add: state_post_Nil)
next
  case (Cons x body)
  obtain k' v' where x: "x = (k', v')" by (cases x)
  from Cons.prems have "k' \<in> set PUB_KEYS \<Longrightarrow> k \<noteq> k'" by auto
  with Cons.IH [OF Cons.prems] x show ?case by (simp add: state_post_Cons)
qed

lemma state_post_stored:
  "distinct (map fst body) \<Longrightarrow> (k, v) \<in> set body \<Longrightarrow> k \<in> set PUB_KEYS
   \<Longrightarrow> state_post body S k = Some v"
proof (induction body arbitrary: S)
  case Nil
  then show ?case by simp
next
  case (Cons x body)
  obtain k' v' where x: "x = (k', v')" by (cases x)
  show ?case
  proof (cases "(k, v) = (k', v')")
    case True
    with Cons.prems(1) x have "k \<notin> fst ` set body" by auto
    from state_post_absent [OF this] True Cons.prems(3) x show ?thesis
      by (simp add: state_post_Cons)
  next
    case False
    with Cons.prems(2) x have m: "(k, v) \<in> set body" by auto
    from Cons.prems(1) have d: "distinct (map fst body)" by simp
    from Cons.IH [OF d m Cons.prems(3)] x show ?thesis
      by (simp add: state_post_Cons)
  qed
qed

lemma upd_other: "k \<noteq> k' \<Longrightarrow> upd k' cast body cfg k = cfg k"
  by (simp add: upd_def split: option.split)

lemma upd_same:
  "upd k cast body cfg k =
     (case body k of
        None \<Rightarrow> cfg k
      | Some v \<Rightarrow> (case cast v of None \<Rightarrow> cfg k | Some w \<Rightarrow> Some w))"
  by (simp add: upd_def split: option.split)

lemma upd_list_other:
  "upd_list k' ic body cfg = Some c \<Longrightarrow> k \<noteq> k' \<Longrightarrow> c k = cfg k"
  by (auto simp: upd_list_def split: option.splits json.splits)

lemma post_keeps_scalars:
  assumes "k \<noteq> ''moving_thresholds''" and "k \<noteq> ''still_thresholds''"
  shows "fst (ld2410_cfg_post fc ic body cfg) k = scalars_done fc ic body cfg k"
proof -
  let ?c5 = "scalars_done fc ic body cfg"
  show ?thesis
  proof (cases "upd_list ''moving_thresholds'' ic body ?c5")
    case None
    then show ?thesis
      by (simp add: ld2410_cfg_post_def scalars_done_def Let_def)
  next
    case (Some c6)
    note c6 = upd_list_other [OF Some assms(1)]
    show ?thesis
    proof (cases "upd_list ''still_thresholds'' ic body c6")
      case None
      with Some c6 show ?thesis
        by (simp add: ld2410_cfg_post_def scalars_done_def Let_def)
    next
      case (Some c7)
      from upd_list_other [OF Some assms(2)] c6 \<open>upd_list ''moving_thresholds'' ic body ?c5 = Some c6\<close> Some
      show ?thesis
        by (simp add: ld2410_cfg_post_def scalars_done_def Let_def)
    qed
  qed
qed

lemma scalars_done_field:
  assumes "k \<in> set SCALAR_KEYS"
  shows "scalars_done fc ic body cfg k =
     (case body k of
        None \<Rightarrow> cfg k
      | Some v \<Rightarrow> (case scalar_cast fc ic k v of None \<Rightarrow> cfg k | Some w \<Rightarrow> Some w))"
proof -
  from assms have "k = ''rg_resolution_m'' \<or> k = ''report_delay_ms'' \<or> k = ''stat_time_s''
      \<or> k = ''moving_max_rg'' \<or> k = ''still_max_rg''"
    by (simp add: SCALAR_KEYS_def)
  then show ?thesis
    by (elim disjE)
       (auto simp: scalars_done_def scalar_cast_def upd_same upd_other split: option.split)
qed

lemma public_keys:
  "''pair'' \<in> set PUB_KEYS" "''refract'' \<in> set PUB_KEYS" "''a'' \<notin> set PUB_KEYS"
  by (simp_all add: PUB_KEYS_def STATE_KEYS_def NOT_PUB_def)

lemma num_int_examples:
  "num_int (JInt i) = Some (JInt i)" "num_int (JStr ''x'') = None"
  "num_int (JStr ''8'') = Some (JInt 8)" "num_int (JBool True) = Some (JInt 1)"
  "num_float (JStr ''0.2'') = Some (JFloat 0.2)" "num_float (JBool True) = Some (JFloat 1)"
  by (simp_all add: num_int_def num_float_def int_of_str_def float_of_str_def signed_digits_def
      mantissa_of_def is_e_def py_strip_def py_space_def split_sign_def digit_val_def
      digits_value_def)

text \<open>
  Claim C4, as amended. \<^verbatim>\<open>POST /state\<close> stores the value of every field whose key is public
  exactly as submitted, with no validation, and leaves every other entry of the state as
  it was: a field with a key that is not public is ignored and the other fields of the
  patch still apply. In \<^verbatim>\<open>POST /ld2410/<side>/cfg\<close> each of the five scalar fields is
  converted to its type; a field whose conversion fails keeps its stored value, and every
  other scalar field of the same patch is applied.
\<close>

theorem patch_fields_applied_independently:
  "(distinct (map fst body) \<and> (k, v) \<in> set body \<and> k \<in> set PUB_KEYS
      \<longrightarrow> state_post body S k = Some v)
   \<and> (k \<notin> set PUB_KEYS \<or> k \<notin> fst ` set body \<longrightarrow> state_post body S k = S k)
   \<and> (f \<in> set SCALAR_KEYS \<longrightarrow>
        fst (ld2410_cfg_post fc ic cbody cfg) f =
          (case cbody f of
             None \<Rightarrow> cfg f
           | Some x \<Rightarrow> (case scalar_cast fc ic f x of None \<Rightarrow> cfg f | Some w \<Rightarrow> Some w)))"
proof (intro conjI impI)
  assume "distinct (map fst body) \<and> (k, v) \<in> set body \<and> k \<in> set PUB_KEYS"
  then show "state_post body S k = Some v"
    using state_post_stored by blast
next
  assume "k \<notin> set PUB_KEYS \<or> k \<notin> fst ` set body"
  then show "state_post body S k = S k"
    using state_post_private state_post_absent by blast
next
  assume f: "f \<in> set SCALAR_KEYS"
  then have "f \<noteq> ''moving_thresholds''" and "f \<noteq> ''still_thresholds''"
    by (auto simp: SCALAR_KEYS_def)
  from post_keeps_scalars [OF this] scalars_done_field [OF f]
  show "fst (ld2410_cfg_post fc ic cbody cfg) f =
          (case cbody f of
             None \<Rightarrow> cfg f
           | Some x \<Rightarrow> (case scalar_cast fc ic f x of None \<Rightarrow> cfg f | Some w \<Rightarrow> Some w))"
    by simp
qed

theorem patch_fields_applied_independently_witness:
  "distinct (map fst patch0) \<and> (''refract'', JFloat (- 5)) \<in> set patch0
   \<and> ''refract'' \<in> set PUB_KEYS
   \<and> state_post patch0 state0 ''refract'' = Some (JFloat (- 5))
   \<and> ''a'' \<notin> set PUB_KEYS
   \<and> state_post patch0 state0 ''a'' = None
   \<and> ''moving_max_rg'' \<in> set SCALAR_KEYS \<and> ''report_delay_ms'' \<in> set SCALAR_KEYS
   \<and> fst (ld2410_cfg_post num_float num_int cfg_patch0 cfg0) ''moving_max_rg'' = Some (JInt 8)
   \<and> fst (ld2410_cfg_post num_float num_int cfg_patch0 cfg0) ''report_delay_ms''
       = Some (JInt 250)"
proof -
  have h1: "distinct (map fst patch0) \<and> (''refract'', JFloat (- 5)) \<in> set patch0
      \<and> ''refract'' \<in> set PUB_KEYS"
    by (simp add: patch0_def public_keys)
  have h2: "''a'' \<notin> set PUB_KEYS" by (simp add: public_keys)
  have h3: "''moving_max_rg'' \<in> set SCALAR_KEYS" "''report_delay_ms'' \<in> set SCALAR_KEYS"
    by (simp_all add: SCALAR_KEYS_def)
  from h1 patch_fields_applied_independently [of patch0 "''refract''" "JFloat (- 5)" state0]
  have c1: "state_post patch0 state0 ''refract'' = Some (JFloat (- 5))" by blast
  from h2 patch_fields_applied_independently [of patch0 "''a''" _ state0]
  have "state_post patch0 state0 ''a'' = state0 ''a''" by blast
  then have c2: "state_post patch0 state0 ''a'' = None" by (simp add: state0_def)
  from h3(1) patch_fields_applied_independently
      [of _ _ _ _ "''moving_max_rg''" num_float num_int cfg_patch0 cfg0]
  have c3: "fst (ld2410_cfg_post num_float num_int cfg_patch0 cfg0) ''moving_max_rg'' = Some (JInt 8)"
    by (simp add: cfg_patch0_def cfg0_def scalar_cast_def num_int_examples)
  from h3(2) patch_fields_applied_independently
      [of _ _ _ _ "''report_delay_ms''" num_float num_int cfg_patch0 cfg0]
  have c4: "fst (ld2410_cfg_post num_float num_int cfg_patch0 cfg0) ''report_delay_ms''
       = Some (JInt 250)"
    by (simp add: cfg_patch0_def cfg0_def scalar_cast_def num_int_examples)
  from h1 h2 h3 c1 c2 c3 c4 show ?thesis by blast
qed

text \<open>
  The claim as stated fails: \<^verbatim>\<open>POST /state\<close> accepts a string for the pairing window and a
  negative refractory period; neither field is rejected or clamped.
\<close>

theorem unvalidated_state_patch:
  "state0 ''pair'' = Some (JFloat 0.80)
   \<and> state_post patch0 state0 ''pair'' = Some (JStr ''abc'')
   \<and> state0 ''refract'' = Some (JFloat 1.00)
   \<and> state_post patch0 state0 ''refract'' = Some (JFloat (- 5))"
  by (simp add: state_post_def patch0_def state0_def public_keys)

text \<open>
  Two more runs of the per-sensor patch: a value outside the documented range 0..8 is
  stored as it is, and a threshold list with an element that does not convert ends the
  request with an error before the second list is looked at.
\<close>

lemma cfg_out_of_range_stored:
  "fst (ld2410_cfg_post num_float num_int [''moving_max_rg'' \<mapsto> JInt 999] cfg0) ''moving_max_rg''
     = Some (JInt 999)"
  by (simp add: ld2410_cfg_post_def upd_def upd_list_def num_int_examples cfg0_def)

lemma cfg_bad_list_aborts:
  "ld2410_cfg_post num_float num_int
     [''moving_thresholds'' \<mapsto> JList [JStr ''x''], ''still_thresholds'' \<mapsto> JList [JInt 40]] cfg0
     = (cfg0, Error500)"
  by (simp add: ld2410_cfg_post_def upd_def upd_list_def num_int_examples)

end
